theory Spec2Isabelle
  imports Main "HOL-Library.AList"
begin

section \<open>JavaScript values, objects and outcomes\<close>

text \<open>
  The facade \<^verbatim>\<open>src/js/api/api.js\<close> is embedded with explicit state passing. A JavaScript
  value is a primitive, a reference to an object of the heap, or a function. Function values
  are named: a method of the \<^verbatim>\<open>Api\<close> object, one of the two closures that
  \<^verbatim>\<open>setupController\<close> creates, or a function written outside this file (a subscriber,
  a controller operation, a plugin hook).
\<close>

datatype fn =
    ApiMethod string
  | ReadyHook nat
  | AllHook nat
  | Ext nat

datatype jsval =
    Undefined
  | Null
  | JBool bool
  | Num int
  | NaN
  | Str string
  | Obj nat
  | Fun fn

datatype error = TypeError | Thrown jsval

type_synonym 'a result = "error + 'a"

fun truthy :: "jsval \<Rightarrow> bool" where
  "truthy Undefined = False"
| "truthy Null = False"
| "truthy (JBool b) = b"
| "truthy (Num n) = (n \<noteq> 0)"
| "truthy NaN = False"
| "truthy (Str s) = (s \<noteq> [])"
| "truthy (Obj a) = True"
| "truthy (Fun f) = True"

text \<open>Everything the facade does that an observer can order in time is recorded in a
  trace. A call of a function value records the callee, the receiver, the arguments and,
  nested inside, whatever the callee itself recorded.\<close>

datatype action =
    QoeTick nat string
  | QoeClear nat string
  | Subscribed nat string jsval
  | Unsubscribed nat jsval jsval jsval
  | NewController nat nat
  | Unregistered nat
  | PropertySet jsval string jsval
  | Called jsval jsval "jsval list" "action list"

record subscription =
  s_name :: string
  s_callback :: jsval
  s_context :: jsval
  s_once :: bool

text \<open>The closure of one \<^verbatim>\<open>Api\<close> instance: the constants \<^verbatim>\<open>id\<close>,
  \<^verbatim>\<open>uniqueId\<close>, \<^verbatim>\<open>pluginsMap\<close> and \<^verbatim>\<open>element\<close>, and the variable
  \<^verbatim>\<open>_controller\<close>.\<close>

record handle =
  h_id :: jsval
  h_uniqueId :: nat
  h_plugins :: nat
  h_element :: nat
  h_controller :: nat

record world =
  instancesCreated :: nat
  instances :: "nat list"
  window_jwplayer :: jsval
  heap :: "(string \<times> jsval) list list"
  events_of :: "nat \<Rightarrow> subscription list"
  handles :: "nat \<Rightarrow> handle"
  trace :: "action list"

text \<open>Functions written outside the file are a parameter of the model: \<open>call\<close> gives the
  behaviour of every function value (it may change the world in any way and may throw), and
  \<open>controller_props\<close> the properties a freshly constructed controller has.\<close>

record env =
  call :: "fn \<Rightarrow> jsval \<Rightarrow> jsval list \<Rightarrow> world \<Rightarrow> jsval result \<times> world"
  controller_props :: "nat \<Rightarrow> (string \<times> jsval) list"

definition obj_props :: "world \<Rightarrow> nat \<Rightarrow> (string \<times> jsval) list" where
  "obj_props w a = (if a < length (heap w) then heap w ! a else [])"

definition lookup :: "(string \<times> jsval) list \<Rightarrow> string \<Rightarrow> jsval" where
  "lookup props name = (case map_of props name of None \<Rightarrow> Undefined | Some v \<Rightarrow> v)"

text \<open>\<^verbatim>\<open>new\<close> and object literals: the new object gets the next address.\<close>

definition alloc :: "(string \<times> jsval) list \<Rightarrow> world \<Rightarrow> nat \<times> world" where
  "alloc props w = (length (heap w), w\<lparr>heap := heap w @ [props]\<rparr>)"

text \<open>\<^verbatim>\<open>v.name\<close>: reading a property of \<^verbatim>\<open>undefined\<close> or \<^verbatim>\<open>null\<close> throws, a
  primitive has none.\<close>

fun get_prop :: "world \<Rightarrow> jsval \<Rightarrow> string \<Rightarrow> jsval result" where
  "get_prop w Undefined name = Inl TypeError"
| "get_prop w Null name = Inl TypeError"
| "get_prop w (Obj a) name = Inr (lookup (obj_props w a) name)"
| "get_prop w v name = Inr Undefined"

text \<open>\<^verbatim>\<open>v.name = x\<close> in strict mode (the file is a module): an object stores the value, a
  primitive throws. A function takes the write as well; function values carry no properties
  in this model, so the heap keeps no mark of it and only the trace records it.\<close>

fun set_prop :: "jsval \<Rightarrow> string \<Rightarrow> jsval \<Rightarrow> world \<Rightarrow> world result" where
  "set_prop (Obj a) name x w =
     Inr (w\<lparr>heap := (heap w)[a := AList.update name x (obj_props w a)],
            trace := trace w @ [PropertySet (Obj a) name x]\<rparr>)"
| "set_prop (Fun f) name x w = Inr (w\<lparr>trace := trace w @ [PropertySet (Fun f) name x]\<rparr>)"
| "set_prop v name x w = Inl TypeError"

text \<open>Calling a value: a function is run by the environment, with a trace of its own that
  is nested into the caller's; calling anything else throws.\<close>

definition invoke :: "env \<Rightarrow> jsval \<Rightarrow> jsval \<Rightarrow> jsval list \<Rightarrow> world \<Rightarrow> jsval result \<times> world" where
  "invoke E f this args w =
     (case f of
        Fun g \<Rightarrow>
          (let (r, w') = call E g this args (w\<lparr>trace := []\<rparr>)
           in (r, w'\<lparr>trace := trace w @ [Called f this args (trace w')]\<rparr>))
      | _ \<Rightarrow> (Inl TypeError, w\<lparr>trace := trace w @ [Called f this args []]\<rparr>))"

section \<open>The event bus\<close>

text \<open>Modelled from the spec: \<^verbatim>\<open>utils/backbone.events\<close> (the \<^verbatim>\<open>Events\<close> mixin behind
  \<^verbatim>\<open>on\<close>, \<^verbatim>\<open>once\<close>, \<^verbatim>\<open>off\<close>, \<^verbatim>\<open>trigger\<close> and \<^verbatim>\<open>triggerSafe\<close>) is not among the
  sources. Subscriptions are kept per object in registration order.\<close>

definition Events_on :: "nat \<Rightarrow> string \<Rightarrow> jsval \<Rightarrow> jsval \<Rightarrow> world \<Rightarrow> world" where
  "Events_on obj name callback context w =
     w\<lparr>events_of := (events_of w)(obj := events_of w obj @
          [\<lparr>s_name = name, s_callback = callback, s_context = context, s_once = False\<rparr>]),
       trace := trace w @ [Subscribed obj name callback]\<rparr>"

text \<open>Modelled from the spec: \<^verbatim>\<open>Events.once\<close>, a subscription that is dropped after its
  first invocation.\<close>

definition Events_once :: "nat \<Rightarrow> string \<Rightarrow> jsval \<Rightarrow> jsval \<Rightarrow> world \<Rightarrow> world" where
  "Events_once obj name callback context w =
     w\<lparr>events_of := (events_of w)(obj := events_of w obj @
          [\<lparr>s_name = name, s_callback = callback, s_context = context, s_once = True\<rparr>]),
       trace := trace w @ [Subscribed obj name callback]\<rparr>"

definition absent :: "jsval \<Rightarrow> bool" where
  "absent v = (v = Undefined \<or> v = Null)"

text \<open>Modelled from the spec: \<^verbatim>\<open>Events.off\<close>. With no arguments every subscription goes;
  a name, a callback and a context each narrow what is removed.\<close>

definition off_matches :: "jsval \<Rightarrow> jsval \<Rightarrow> jsval \<Rightarrow> subscription \<Rightarrow> bool" where
  "off_matches name callback context s =
     ((absent name \<or> name = Str (s_name s)) \<and>
      (absent callback \<or> callback = s_callback s) \<and>
      (absent context \<or> context = s_context s))"

definition Events_off :: "nat \<Rightarrow> jsval \<Rightarrow> jsval \<Rightarrow> jsval \<Rightarrow> world \<Rightarrow> world" where
  "Events_off obj name callback context w =
     w\<lparr>events_of := (events_of w)(obj :=
          filter (\<lambda>s. \<not> off_matches name callback context s) (events_of w obj)),
       trace := trace w @ [Unsubscribed obj name callback context]\<rparr>"

text \<open>Modelled from the spec: the dispatch order of \<^verbatim>\<open>Events.trigger\<close>. The subscriptions
  under the event's own name come first, in registration order, each given the payload;
  then those under the wildcard name, each given the name and the payload.\<close>

definition recipients :: "subscription list \<Rightarrow> string \<Rightarrow> jsval \<Rightarrow> (subscription \<times> jsval list) list" where
  "recipients subs name payload =
     map (\<lambda>s. (s, [payload])) (filter (\<lambda>s. s_name s = name) subs) @
     map (\<lambda>s. (s, [Str name, payload])) (filter (\<lambda>s. s_name s = ''all'') subs)"

definition receiver :: "nat \<Rightarrow> subscription \<Rightarrow> jsval" where
  "receiver obj s = (if absent (s_context s) then Obj obj else s_context s)"

definition deliver :: "env \<Rightarrow> nat \<Rightarrow> subscription \<Rightarrow> jsval list \<Rightarrow> world \<Rightarrow> jsval result \<times> world" where
  "deliver E obj s args w =
     (let (r, w1) = invoke E (s_callback s) (receiver obj s) args w
      in (r, if s_once s then w1\<lparr>events_of := (events_of w1)(obj := remove1 s (events_of w1 obj))\<rparr>
             else w1))"

text \<open>Modelled from the spec: \<^verbatim>\<open>Events.trigger\<close> calls the subscribers directly, so the
  first exception ends the dispatch and reaches the caller.\<close>

fun trigger_events :: "env \<Rightarrow> nat \<Rightarrow> (subscription \<times> jsval list) list \<Rightarrow> world \<Rightarrow> unit result \<times> world" where
  "trigger_events E obj [] w = (Inr (), w)"
| "trigger_events E obj ((s, args) # rest) w =
     (case deliver E obj s args w of
        (Inl e, w1) \<Rightarrow> (Inl e, w1)
      | (Inr r, w1) \<Rightarrow> trigger_events E obj rest w1)"

definition Events_trigger :: "env \<Rightarrow> nat \<Rightarrow> string \<Rightarrow> jsval \<Rightarrow> world \<Rightarrow> jsval result \<times> world" where
  "Events_trigger E obj name payload w =
     (case trigger_events E obj (recipients (events_of w obj) name payload) w of
        (Inl e, w1) \<Rightarrow> (Inl e, w1)
      | (Inr u, w1) \<Rightarrow> (Inr (Obj obj), w1))"

text \<open>Modelled from the spec: \<^verbatim>\<open>Events.triggerSafe\<close> calls each subscriber inside an
  isolation boundary: an exception is contained and the next subscriber still runs.\<close>

fun safe_trigger_events :: "env \<Rightarrow> nat \<Rightarrow> (subscription \<times> jsval list) list \<Rightarrow> world \<Rightarrow> world" where
  "safe_trigger_events E obj [] w = w"
| "safe_trigger_events E obj ((s, args) # rest) w =
     safe_trigger_events E obj rest (snd (deliver E obj s args w))"

definition Events_triggerSafe :: "env \<Rightarrow> nat \<Rightarrow> string \<Rightarrow> jsval \<Rightarrow> world \<Rightarrow> jsval result \<times> world" where
  "Events_triggerSafe E obj name payload w =
     (Inr (Obj obj), safe_trigger_events E obj (recipients (events_of w obj) name payload) w)"

section \<open>Module-level functions of api.js\<close>

text \<open>Modelled from the spec: the QoE timer (\<^verbatim>\<open>api/timer\<close>) is a collaborator outside the
  sources; only the calls made on it are recorded.\<close>

definition qoe_tick :: "nat \<Rightarrow> string \<Rightarrow> world \<Rightarrow> world" where
  "qoe_tick api label w = w\<lparr>trace := trace w @ [QoeTick api label]\<rparr>"

definition qoe_clear :: "nat \<Rightarrow> string \<Rightarrow> world \<Rightarrow> world" where
  "qoe_clear api label w = w\<lparr>trace := trace w @ [QoeClear api label]\<rparr>"

text \<open>Modelled from the spec: \<^verbatim>\<open>new Controller(element)\<close> (\<^verbatim>\<open>controller/controller\<close> is
  outside the sources) allocates an object with the properties the environment gives a
  fresh controller; its \<^verbatim>\<open>on\<close> and \<^verbatim>\<open>off\<close> are the event bus above, and the event
  constant \<^verbatim>\<open>JWPLAYER_READY\<close> is the name \<^verbatim>\<open>ready\<close>.\<close>

definition new_Controller :: "env \<Rightarrow> nat \<Rightarrow> nat \<Rightarrow> world \<Rightarrow> nat \<times> world" where
  "new_Controller E api element w =
     (let (c, w1) = alloc (controller_props E element) w
      in (c, w1\<lparr>events_of := (events_of w1)(c := []),
                 trace := trace w1 @ [NewController api c]\<rparr>))"

definition setupController :: "env \<Rightarrow> nat \<Rightarrow> nat \<Rightarrow> world \<Rightarrow> nat \<times> world" where
  "setupController E api element w =
     (let (controller, w1) = new_Controller E api element w;
          w2 = Events_on controller ''ready'' (Fun (ReadyHook api)) Undefined w1;
          w3 = Events_on controller ''all'' (Fun (AllHook api)) Undefined w2
      in (controller, w3))"

definition resetPlayer :: "env \<Rightarrow> nat \<Rightarrow> nat \<Rightarrow> world \<Rightarrow> unit result \<times> world" where
  "resetPlayer E api controller w =
     (let w1 = Events_off api Undefined Undefined Undefined w;
          w2 = Events_off controller Undefined Undefined Undefined w1;
          playerDestroy = lookup (obj_props w2 controller) ''playerDestroy''
      in if truthy playerDestroy
         then (case invoke E playerDestroy (Obj controller) [] w2 of
                 (Inl e, w3) \<Rightarrow> (Inl e, w3)
               | (Inr r, w3) \<Rightarrow> (Inr (), w3))
         else (Inr (), w2))"

text \<open>The loop \<^verbatim>\<open>for (let i = instances.length; i--;)\<close>: the index runs from the last
  entry down to the first, and the first match is spliced out.\<close>

fun removePlayer_loop :: "world \<Rightarrow> nat \<Rightarrow> nat \<Rightarrow> nat list" where
  "removePlayer_loop w api 0 = instances w"
| "removePlayer_loop w api (Suc i) =
     (if h_uniqueId (handles w (instances w ! i)) = h_uniqueId (handles w api)
      then take i (instances w) @ drop (Suc i) (instances w)
      else removePlayer_loop w api i)"

definition removePlayer :: "nat \<Rightarrow> world \<Rightarrow> world" where
  "removePlayer api w =
     w\<lparr>instances := removePlayer_loop w api (length (instances w)),
       trace := trace w @ [Unregistered api]\<rparr>"

text \<open>Modelled from the spec: the instance registry \<^verbatim>\<open>api/players\<close> is an array that
  lives outside the sources; a handle is appended to it when it is constructed.\<close>

definition register :: "nat \<Rightarrow> world \<Rightarrow> world" where
  "register api w = w\<lparr>instances := instances w @ [api]\<rparr>"

section \<open>The Api class\<close>

text \<open>The names under which an instance has a function: those the constructor and the
  class body put there, the getter \<^verbatim>\<open>_\<close> (it yields the underscore function), and
  the functions every object inherits.\<close>

definition Api_functions :: "string list" where
  "Api_functions =
    [''callInternal'', ''setup'', ''remove'', ''constructor'', ''on'', ''once'', ''off'',
     ''trigger'', ''triggerSafe'', ''qoe'', ''getAudioTracks'', ''getBuffer'',
     ''getCaptions'', ''getCaptionsList'', ''getConfig'', ''getContainer'',
     ''getControls'', ''getCurrentAudioTrack'', ''getCurrentCaptions'',
     ''getCurrentQuality'', ''getDuration'', ''getFullscreen'', ''getHeight'', ''getItem'',
     ''getItemMeta'', ''getMeta'', ''getMute'', ''getPlaybackRate'', ''getPlaylist'',
     ''getPlaylistIndex'', ''getPlaylistItem'', ''getPosition'', ''getProvider'',
     ''getQualityLevels'', ''getSafeRegion'', ''getState'', ''getStretching'',
     ''getViewable'', ''getVisualQuality'', ''getVolume'', ''getWidth'', ''setCaptions'',
     ''setConfig'', ''setControls'', ''setCurrentAudioTrack'', ''setCurrentCaptions'',
     ''setCurrentQuality'', ''setFullscreen'', ''setMute'', ''setPlaybackRate'',
     ''setCues'', ''setVolume'', ''load'', ''play'', ''pause'', ''seek'', ''playlistItem'',
     ''playlistNext'', ''playlistPrev'', ''next'', ''castToggle'', ''createInstream'',
     ''skipAd'', ''stop'', ''resize'', ''addButton'', ''removeButton'', ''attachMedia'',
     ''detachMedia'', ''isBeforeComplete'', ''isBeforePlay'', ''getPlugin'', ''addPlugin'',
     ''registerPlugin'', ''getAdBlock'', ''playAd'', ''pauseAd'', ''getRenderingMode'',
     ''dispatchEvent'', ''removeEventListener'', ''onBuffer'', ''onPause'', ''onPlay'',
     ''onIdle'', ''onBufferChange'', ''onBufferFull'', ''onError'', ''onSetupError'',
     ''onFullscreen'', ''onMeta'', ''onMute'', ''onPlaylist'', ''onPlaylistItem'',
     ''onPlaylistComplete'', ''onReady'', ''onResize'', ''onComplete'', ''onSeek'',
     ''onTime'', ''onVolume'', ''onBeforePlay'', ''onBeforeComplete'', ''onDisplayClick'',
     ''onControls'', ''onQualityLevels'', ''onQualityChange'', ''onCaptionsList'',
     ''onCaptionsChange'', ''onAdError'', ''onAdClick'', ''onAdImpression'', ''onAdTime'',
     ''onAdComplete'', ''onAdCompanions'', ''onAdSkipped'', ''onAdPlay'', ''onAdPause'',
     ''onAdMeta'', ''onCast'', ''onAudioTrackChange'', ''onAudioTracks'', ''_'',
     ''hasOwnProperty'', ''isPrototypeOf'', ''propertyIsEnumerable'', ''toLocaleString'',
     ''toString'', ''valueOf'', ''__defineGetter__'', ''__defineSetter__'',
     ''__lookupGetter__'', ''__lookupSetter__'']"

text \<open>\<^verbatim>\<open>this[name]\<close> on an instance: the read-only accessors the constructor defines, then
  whatever was stored on the object itself, then the functions above. The members that are
  objects or strings the model does not represent (\<^verbatim>\<open>_qoe\<close>, \<^verbatim>\<open>_events\<close>,
  \<^verbatim>\<open>version\<close>, \<^verbatim>\<open>Events\<close>, \<^verbatim>\<open>utils\<close>) read as \<^verbatim>\<open>undefined\<close>; like it, they
  are not functions, which is all \<^verbatim>\<open>setup\<close> asks of a member.\<close>

definition Api_get :: "world \<Rightarrow> nat \<Rightarrow> string \<Rightarrow> jsval" where
  "Api_get w this name =
     (if name = ''id'' then h_id (handles w this)
      else if name = ''uniqueId'' then Num (int (h_uniqueId (handles w this)))
      else if name = ''plugins'' then Obj (h_plugins (handles w this))
      else (case map_of (obj_props w this) name of
              Some v \<Rightarrow> v
            | None \<Rightarrow> if name \<in> set Api_functions then Fun (ApiMethod name) else Undefined))"

definition Api_new :: "env \<Rightarrow> nat \<Rightarrow> world \<Rightarrow> nat \<times> world" where
  "Api_new E element w =
     (let (this, w1) = alloc [] w;
          uniqueId = instancesCreated w1;
          w2 = w1\<lparr>instancesCreated := instancesCreated w1 + 1\<rparr>;
          id = lookup (obj_props w2 element) ''id'';
          (pluginsMap, w3) = alloc [] w2;
          w4 = w3\<lparr>events_of := (events_of w3)(this := [])\<rparr>;
          w5 = qoe_tick this ''init'' w4;
          (controller, w6) = setupController E this element w5
      in (this, w6\<lparr>handles := (handles w6)(this :=
            \<lparr>h_id = id, h_uniqueId = uniqueId, h_plugins = pluginsMap,
             h_element = element, h_controller = controller\<rparr>)\<rparr>))"

text \<open>The array a rest parameter collects, as the properties of an object: the elements
  under their indices, written in decimal, and \<^verbatim>\<open>length\<close>.\<close>

fun decimal :: "nat \<Rightarrow> string" where
  "decimal n = (if n < 10 then [''0123456789'' ! n]
                else decimal (n div 10) @ [''0123456789'' ! (n mod 10)])"

definition array_props :: "jsval list \<Rightarrow> (string \<times> jsval) list" where
  "array_props xs = zip (map decimal [0..<length xs]) xs @ [(''length'', Num (int (length xs)))]"

text \<open>\<^verbatim>\<open>f.apply(rcv, args)\<close>. On a function \<^verbatim>\<open>apply\<close> is the built-in one: the function
  is called on the receiver with the elements of \<^verbatim>\<open>args\<close> as its arguments. Any other value
  has only the \<^verbatim>\<open>apply\<close> it carries as a property: that one is called, on the value, with
  the receiver and the array itself, which becomes an object of the heap here; without a
  callable \<^verbatim>\<open>apply\<close> the call throws.\<close>

definition apply_method :: "env \<Rightarrow> jsval \<Rightarrow> jsval \<Rightarrow> jsval list \<Rightarrow> world \<Rightarrow> jsval result \<times> world" where
  "apply_method E f rcv args w =
     (case f of
        Fun g \<Rightarrow> invoke E f rcv args w
      | _ \<Rightarrow>
          (case get_prop w f ''apply'' of
             Inl e \<Rightarrow> (Inl e, w)
           | Inr own \<Rightarrow>
               (let (arr, w1) = alloc (array_props args) w
                in invoke E own f [rcv, Obj arr] w1)))"

definition callInternal :: "env \<Rightarrow> nat \<Rightarrow> string \<Rightarrow> jsval list \<Rightarrow> world \<Rightarrow> jsval result \<times> world" where
  "callInternal E this name args w =
     (let controller = h_controller (handles w this);
          method = lookup (obj_props w controller) name
      in if truthy method then apply_method E method (Obj controller) args w
         else (Inr Null, w))"

definition Api_on :: "nat \<Rightarrow> string \<Rightarrow> jsval \<Rightarrow> jsval \<Rightarrow> world \<Rightarrow> jsval result \<times> world" where
  "Api_on this name callback context w = (Inr (Obj this), Events_on this name callback context w)"

definition Api_once :: "nat \<Rightarrow> string \<Rightarrow> jsval \<Rightarrow> jsval \<Rightarrow> world \<Rightarrow> jsval result \<times> world" where
  "Api_once this name callback context w = (Inr (Obj this), Events_once this name callback context w)"

definition Api_off :: "nat \<Rightarrow> jsval \<Rightarrow> jsval \<Rightarrow> jsval \<Rightarrow> world \<Rightarrow> jsval result \<times> world" where
  "Api_off this name callback context w = (Inr (Obj this), Events_off this name callback context w)"

text \<open>Modelled from the spec: \<^verbatim>\<open>_.isObject\<close> and \<^verbatim>\<open>_.extend\<close> of \<^verbatim>\<open>utils/underscore\<close>.
  A payload is an object when it is an object reference or a function; the copy is a new
  object with the same properties (a function value carries none here).\<close>

fun isObject :: "jsval \<Rightarrow> bool" where
  "isObject (Obj a) = True"
| "isObject (Fun f) = True"
| "isObject v = False"

fun extend_new :: "jsval \<Rightarrow> world \<Rightarrow> nat \<times> world" where
  "extend_new (Obj a) w = alloc (obj_props w a) w"
| "extend_new v w = alloc [] w"

text \<open>The first six lines of \<^verbatim>\<open>trigger\<close>: the payload that will be delivered.\<close>

definition trigger_args :: "string \<Rightarrow> jsval \<Rightarrow> world \<Rightarrow> nat \<times> world" where
  "trigger_args name args w =
     (let (a, w1) = (if isObject args then extend_new args w else alloc [] w)
      in (a, w1\<lparr>heap := (heap w1)[a := AList.update ''type'' (Str name) (obj_props w1 a)]\<rparr>))"

definition Api_trigger :: "env \<Rightarrow> nat \<Rightarrow> string \<Rightarrow> jsval \<Rightarrow> world \<Rightarrow> jsval result \<times> world" where
  "Api_trigger E this name args w =
     (let (a, w1) = trigger_args name args w;
          jwplayer = window_jwplayer w1
      in if truthy jwplayer \<and> (case get_prop w1 jwplayer ''debug'' of Inr d \<Rightarrow> truthy d | Inl e \<Rightarrow> False)
         then Events_trigger E this name (Obj a) w1
         else Events_triggerSafe E this name (Obj a) w1)"

definition Api_triggerSafe :: "env \<Rightarrow> nat \<Rightarrow> string \<Rightarrow> jsval \<Rightarrow> world \<Rightarrow> jsval result \<times> world" where
  "Api_triggerSafe E this type args w = Events_triggerSafe E this type args w"

text \<open>\<^verbatim>\<open>utils.foreach(options.events, ...)\<close> inside \<^verbatim>\<open>setup\<close>: for each key, in the
  object's own order, the member of the instance under that name is called with the value
  when it is a function. Modelled from the spec: \<^verbatim>\<open>utils.foreach\<close> (\<^verbatim>\<open>utils/helpers\<close>)
  visits every key of an object and nothing of any other value.\<close>

fun foreach_events :: "env \<Rightarrow> nat \<Rightarrow> (string \<times> jsval) list \<Rightarrow> world \<Rightarrow> unit result \<times> world" where
  "foreach_events E this [] w = (Inr (), w)"
| "foreach_events E this ((evt, val) # rest) w =
     (case Api_get w this evt of
        Fun f \<Rightarrow>
          (case invoke E (Fun f) (Obj this) [val] w of
             (Inl e, w1) \<Rightarrow> (Inl e, w1)
           | (Inr r, w1) \<Rightarrow> foreach_events E this rest w1)
      | _ \<Rightarrow> foreach_events E this rest w)"

fun entries :: "world \<Rightarrow> jsval \<Rightarrow> (string \<times> jsval) list" where
  "entries w (Obj a) = obj_props w a"
| "entries w v = []"

text \<open>The instance method \<^verbatim>\<open>setup\<close> (the bare name is reserved in Isabelle).\<close>

definition Api_setup :: "env \<Rightarrow> nat \<Rightarrow> jsval \<Rightarrow> world \<Rightarrow> jsval result \<times> world" where
  "Api_setup E this options w =
     (let element = h_element (handles w this);
          w1 = qoe_clear this ''ready'' w;
          w2 = qoe_tick this ''setup'' w1
      in case resetPlayer E this (h_controller (handles w2 this)) w2 of
           (Inl e, w3) \<Rightarrow> (Inl e, w3)
         | (Inr u, w3) \<Rightarrow>
             (let (controller, w4) = setupController E this element w3;
                  w5 = w4\<lparr>handles := (handles w4)(this := (handles w4 this)\<lparr>h_controller := controller\<rparr>)\<rparr>
              in case get_prop w5 options ''events'' of
                   Inl e \<Rightarrow> (Inl e, w5)
                 | Inr events \<Rightarrow>
                     (case foreach_events E this (entries w5 events) w5 of
                        (Inl e, w6) \<Rightarrow> (Inl e, w6)
                      | (Inr u, w6) \<Rightarrow>
                          (case set_prop options ''id'' (Api_get w6 this ''id'') w6 of
                             Inl e \<Rightarrow> (Inl e, w6)
                           | Inr w7 \<Rightarrow>
                               (let c = h_controller (handles w7 this)
                                in case invoke E (lookup (obj_props w7 c) ''setup'') (Obj c)
                                          [options, Obj this] w7 of
                                     (Inl e, w8) \<Rightarrow> (Inl e, w8)
                                   | (Inr r, w8) \<Rightarrow> (Inr (Obj this), w8))))))"

definition remove :: "env \<Rightarrow> nat \<Rightarrow> world \<Rightarrow> jsval result \<times> world" where
  "remove E this w =
     (let w1 = removePlayer this w
      in case Api_trigger E this ''remove'' Undefined w1 of
           (Inl e, w2) \<Rightarrow> (Inl e, w2)
         | (Inr r, w2) \<Rightarrow>
             (case resetPlayer E this (h_controller (handles w2 this)) w2 of
                (Inl e, w3) \<Rightarrow> (Inl e, w3)
              | (Inr u, w3) \<Rightarrow> (Inr (Obj this), w3)))"

definition setVolume :: "env \<Rightarrow> nat \<Rightarrow> jsval \<Rightarrow> world \<Rightarrow> jsval result \<times> world" where
  "setVolume E this level w =
     (case callInternal E this ''setVolume'' [level] w of
        (Inl e, w1) \<Rightarrow> (Inl e, w1)
      | (Inr r, w1) \<Rightarrow> (Inr (Obj this), w1))"

definition isBeforeComplete :: "env \<Rightarrow> nat \<Rightarrow> world \<Rightarrow> jsval result \<times> world" where
  "isBeforeComplete E this w =
     (case callInternal E this ''isBeforeComplete'' [] w of
        (Inl e, w1) \<Rightarrow> (Inl e, w1)
      | (Inr r, w1) \<Rightarrow> (Inr Undefined, w1))"

definition isBeforePlay :: "env \<Rightarrow> nat \<Rightarrow> world \<Rightarrow> jsval result \<times> world" where
  "isBeforePlay E this w =
     (case callInternal E this ''isBeforePlay'' [] w of
        (Inl e, w1) \<Rightarrow> (Inl e, w1)
      | (Inr r, w1) \<Rightarrow> (Inr Undefined, w1))"

definition getPlugin :: "nat \<Rightarrow> string \<Rightarrow> world \<Rightarrow> jsval" where
  "getPlugin this name w = lookup (obj_props w (h_plugins (handles w this))) name"

definition addPlugin :: "nat \<Rightarrow> string \<Rightarrow> jsval \<Rightarrow> world \<Rightarrow> jsval result \<times> world" where
  "addPlugin this name pluginInstance w =
     (case set_prop (Obj (h_plugins (handles w this))) name pluginInstance w of
        Inl e \<Rightarrow> (Inl e, w)
      | Inr w1 \<Rightarrow>
          (case get_prop w1 pluginInstance ''addToPlayer'' of
             Inl e \<Rightarrow> (Inl e, w1)
           | Inr addToPlayer \<Rightarrow>
               (let w2 = snd (Api_on this ''ready'' addToPlayer Undefined w1)
                in case get_prop w2 pluginInstance ''resize'' of
                     Inl e \<Rightarrow> (Inl e, w2)
                   | Inr resize \<Rightarrow>
                       if truthy resize
                       then (case get_prop w2 pluginInstance ''resizeHandler'' of
                               Inl e \<Rightarrow> (Inl e, w2)
                             | Inr resizeHandler \<Rightarrow>
                                 (Inr Undefined, snd (Api_on this ''resize'' resizeHandler Undefined w2)))
                       else (Inr Undefined, w2))))"

section \<open>Vocabulary of the properties\<close>

text \<open>An environment is quiet when the functions outside the file neither construct nor
  remove players: the counter \<^verbatim>\<open>instancesCreated\<close> is private to the module, and the
  registry changes only through construction and \<^verbatim>\<open>remove\<close>.\<close>

definition quiet :: "env \<Rightarrow> bool" where
  "quiet E = (\<forall>f this args w. instancesCreated (snd (call E f this args w)) = instancesCreated w \<and>
                 instances (snd (call E f this args w)) = instances w)"

definition registry :: "world \<Rightarrow> nat \<times> nat list" where
  "registry w = (instancesCreated w, instances w)"

text \<open>A run of a page: players are constructed (and registered), set up and removed in any
  order; \<open>uniqueIds\<close> collects the \<^verbatim>\<open>uniqueId\<close> of each construction as it happens.\<close>

datatype operation = Construct nat | Setup nat jsval | Remove nat

fun constructions :: "operation list \<Rightarrow> nat" where
  "constructions [] = 0"
| "constructions (Construct el # ops) = Suc (constructions ops)"
| "constructions (other # ops) = constructions ops"

fun uniqueIds :: "env \<Rightarrow> operation list \<Rightarrow> world \<Rightarrow> nat list" where
  "uniqueIds E [] w = []"
| "uniqueIds E (Construct el # ops) w =
     (let (api, w1) = Api_new E el w
      in h_uniqueId (handles w1 api) # uniqueIds E ops (register api w1))"
| "uniqueIds E (Setup api options # ops) w = uniqueIds E ops (snd (Api_setup E api options w))"
| "uniqueIds E (Remove api # ops) w = uniqueIds E ops (snd (remove E api w))"

text \<open>The registry contract in the spec's words: scanning from the end, the first entry
  with the handle's \<^verbatim>\<open>uniqueId\<close> is removed, and only that one.\<close>

fun remove_first :: "('a \<Rightarrow> bool) \<Rightarrow> 'a list \<Rightarrow> 'a list" where
  "remove_first P [] = []"
| "remove_first P (x # xs) = (if P x then xs else x # remove_first P xs)"

definition unregister :: "world \<Rightarrow> nat \<Rightarrow> nat list" where
  "unregister w api =
     rev (remove_first (\<lambda>a. h_uniqueId (handles w a) = h_uniqueId (handles w api)) (rev (instances w)))"

text \<open>A small page for the worked scenarios: two elements, no player yet. In the
  environment \<open>plain\<close> a controller is born with a \<^verbatim>\<open>setup\<close> method, a destroy hook, two
  operations and a data property; the function \<open>Ext 0\<close> throws, \<open>Ext 4\<close> answers
  \<^verbatim>\<open>true\<close>, every other one returns \<^verbatim>\<open>undefined\<close>.\<close>

definition no_handle :: handle where
  "no_handle = \<lparr>h_id = Undefined, h_uniqueId = 0, h_plugins = 0, h_element = 0, h_controller = 0\<rparr>"

definition page :: world where
  "page = \<lparr>instancesCreated = 0, instances = [], window_jwplayer = Undefined,
            heap = [[(''id'', Str ''a'')], [(''id'', Str ''b'')]],
            events_of = (\<lambda>a. []), handles = (\<lambda>a. no_handle), trace = []\<rparr>"

definition plain :: env where
  "plain = \<lparr>call = (\<lambda>f this args w.
               (if f = Ext 0 then Inl (Thrown (Str ''boom''))
                else if f = Ext 4 then Inr (JBool True) else Inr Undefined, w)),
             controller_props = (\<lambda>el.
               [(''setup'', Fun (Ext 1)), (''playerDestroy'', Fun (Ext 2)),
                (''setVolume'', Fun (Ext 3)), (''isBeforeComplete'', Fun (Ext 4)),
                (''_model'', Obj el)])\<rparr>"

text \<open>What a trace entry says about a call, and the calls a dispatch owes its recipients.\<close>

fun call_of :: "action \<Rightarrow> (jsval \<times> jsval \<times> jsval list) option" where
  "call_of (Called f this args sub) = Some (f, this, args)"
| "call_of a = None"

definition deliveries :: "nat \<Rightarrow> (subscription \<times> jsval list) list \<Rightarrow> (jsval \<times> jsval \<times> jsval list) option list" where
  "deliveries obj rs = map (\<lambda>(s, args). Some (s_callback s, receiver obj s, args)) rs"

text \<open>The process-wide debug flag is set when \<^verbatim>\<open>window.jwplayer\<close> exists and carries a
  truthy \<^verbatim>\<open>debug\<close> (\<^verbatim>\<open>window.jwplayer\<close> is represented by the object that holds its
  properties).\<close>

definition debug_flag :: "world \<Rightarrow> bool" where
  "debug_flag w = (case window_jwplayer w of Obj j \<Rightarrow> truthy (lookup (obj_props w j) ''debug'') | _ \<Rightarrow> False)"

fun valid_ref :: "world \<Rightarrow> jsval \<Rightarrow> bool" where
  "valid_ref w (Obj a) = (a < length (heap w))"
| "valid_ref w v = True"

text \<open>More of the worked scenarios: the page after one player was constructed on its first
  element; the same with three subscribers on the player, the first of which throws; a
  caller's object \<^verbatim>\<open>{a: 1}\<close>; and a page with the debug flag switched on.\<close>

definition player :: world where
  "player = snd (Api_new plain 0 page)"

definition debugging :: "world \<Rightarrow> world" where
  "debugging w = (let (j, w1) = alloc [(''debug'', JBool True)] w in w1\<lparr>window_jwplayer := Obj j\<rparr>)"

definition listening :: world where
  "listening = snd (Api_on 2 ''all'' (Fun (Ext 6)) Undefined (snd (Api_on 2 ''x'' (Fun (Ext 5)) Undefined (snd (Api_on 2 ''x'' (Fun (Ext 0)) Undefined player)))))"


text \<open>The calls the \<^verbatim>\<open>events\<close> map of the options asks for, in the words of the
  specification: the keys are taken in order; a key under which the handle has a function
  at that moment asks for one call of that function, on the handle, with the key's value as
  only argument; the next key is looked at once that call is over.\<close>

fun is_function :: "jsval \<Rightarrow> bool" where
  "is_function (Fun f) = True"
| "is_function v = False"

fun requested :: "env \<Rightarrow> nat \<Rightarrow> (string \<times> jsval) list \<Rightarrow> world \<Rightarrow> (jsval \<times> jsval \<times> jsval list) option list" where
  "requested E this [] w = []"
| "requested E this ((evt, val) # rest) w =
     (if is_function (Api_get w this evt)
      then Some (Api_get w this evt, Obj this, [val]) #
           requested E this rest (snd (invoke E (Api_get w this evt) (Obj this) [val] w))
      else requested E this rest w)"


text \<open>The second half of \<^verbatim>\<open>setup\<close>, from the \<^verbatim>\<open>foreach\<close> on, named so that it can be
  reasoned about on its own (\<open>Api_setup_eq\<close> below joins the halves).\<close>

definition bind_events :: "env \<Rightarrow> nat \<Rightarrow> jsval \<Rightarrow> world \<Rightarrow> jsval result \<times> world" where
  "bind_events E this options w5 =
     (case get_prop w5 options ''events'' of
        Inl e \<Rightarrow> (Inl e, w5)
      | Inr events \<Rightarrow>
          (case foreach_events E this (entries w5 events) w5 of
             (Inl e, w6) \<Rightarrow> (Inl e, w6)
           | (Inr u, w6) \<Rightarrow>
               (case set_prop options ''id'' (Api_get w6 this ''id'') w6 of
                  Inl e \<Rightarrow> (Inl e, w6)
                | Inr w7 \<Rightarrow>
                    (let c = h_controller (handles w7 this)
                     in case invoke E (lookup (obj_props w7 c) ''setup'') (Obj c)
                               [options, Obj this] w7 of
                          (Inl e, w8) \<Rightarrow> (Inl e, w8)
                        | (Inr r, w8) \<Rightarrow> (Inr (Obj this), w8)))))"

text \<open>A controller is wired to a handle when it carries the closure that re-emits its
  events on the handle.\<close>

definition forwards_to :: "world \<Rightarrow> nat \<Rightarrow> nat \<Rightarrow> bool" where
  "forwards_to w this c = (\<exists>s\<in>set (events_of w c). s_callback s = Fun (AllHook this))"

definition wired :: "world \<Rightarrow> nat \<Rightarrow> nat set" where
  "wired w this = {c. forwards_to w this c}"

text \<open>Two moments inside \<^verbatim>\<open>setup\<close> and \<^verbatim>\<open>remove\<close>, named so that the properties can
  speak about them: the world once \<^verbatim>\<open>resetPlayer\<close> has detached the listeners of the
  handle and of the controller (its first two statements, before the destroy hook), and the
  world once \<^verbatim>\<open>setup\<close> has wired the replacement controller and stored it in
  \<^verbatim>\<open>_controller\<close> (its first five statements, the teardown having returned).\<close>

definition detached :: "nat \<Rightarrow> nat \<Rightarrow> world \<Rightarrow> world" where
  "detached api controller w =
     Events_off controller Undefined Undefined Undefined
       (Events_off api Undefined Undefined Undefined w)"

definition replaced :: "env \<Rightarrow> nat \<Rightarrow> world \<Rightarrow> world" where
  "replaced E this w =
     (let w3 = snd (resetPlayer E this (h_controller (handles w this))
                      (qoe_tick this ''setup'' (qoe_clear this ''ready'' w)));
          (controller, w4) = setupController E this (h_element (handles w this)) w3
      in w4\<lparr>handles := (handles w4)(this := (handles w4 this)\<lparr>h_controller := controller\<rparr>)\<rparr>)"

text \<open>An environment keeps the subscriptions of a handle when outside functions do not
  subscribe to or unsubscribe from it. \<open>hook\<close> is the subscription \<^verbatim>\<open>on(name, callback)\<close>
  makes: no context, not once.\<close>

definition keeps_subscriptions :: "env \<Rightarrow> nat \<Rightarrow> bool" where
  "keeps_subscriptions E this =
     (\<forall>f rcv args w. events_of (snd (call E f rcv args w)) this = events_of w this)"

definition hook :: "string \<Rightarrow> jsval \<Rightarrow> subscription" where
  "hook name callback = \<lparr>s_name = name, s_callback = callback, s_context = Undefined, s_once = False\<rparr>"

text \<open>The remaining scenarios: the player with a subscriber to \<^verbatim>\<open>remove\<close>; the player
  with an options object \<^verbatim>\<open>{events: {setVolume: 50, volume: 5}, file: 'a.mp4'}\<close>; an
  environment in which the instance method \<^verbatim>\<open>setVolume\<close> is the one of this file; the
  player whose controller has, under \<^verbatim>\<open>odd\<close>, an object with an \<^verbatim>\<open>apply\<close> of its own;
  an environment in which the instance method \<^verbatim>\<open>remove\<close> is the one of this file, and
  the player with an options object \<^verbatim>\<open>{events: {remove: 1}}\<close>; and the player with a
  plugin instance that has a resize capability.\<close>

definition leaving :: world where
  "leaving = snd (Api_on 2 ''remove'' (Fun (Ext 7)) Undefined listening)"

definition configuring :: world where
  "configuring =
     (let (events, w1) = alloc [(''setVolume'', Num 50), (''volume'', Num 5)] player;
          (options, w2) = alloc [(''events'', Obj events), (''file'', Str ''a.mp4'')] w1
      in w2)"

definition scripted :: env where
  "scripted = plain\<lparr>call := (\<lambda>f rcv args w.
      case (f, rcv, args) of
        (ApiMethod name, Obj this, [level]) \<Rightarrow>
          if name = ''setVolume'' then setVolume plain this level w else call plain f rcv args w
      | _ \<Rightarrow> call plain f rcv args w)\<rparr>"

definition applying :: world where
  "applying =
     (let (a, w1) = alloc [(''apply'', Fun (Ext 4))] player
      in w1\<lparr>heap := (heap w1)[4 := AList.update ''odd'' (Obj a) (obj_props w1 4)]\<rparr>)"



definition plugged :: world where
  "plugged = snd (alloc [(''addToPlayer'', Fun (Ext 8)), (''resize'', JBool True),
                         (''resizeHandler'', Fun (Ext 9))] player)"

section \<open>Properties\<close>

subsection \<open>What quiet functions leave alone\<close>

lemma registry_simps [simp]:
  "registry (w\<lparr>trace := t\<rparr>) = registry w"
  "registry (w\<lparr>heap := hp\<rparr>) = registry w"
  "registry (w\<lparr>events_of := ev\<rparr>) = registry w"
  "registry (w\<lparr>handles := hs\<rparr>) = registry w"
  by (simp_all add: registry_def)

lemma quiet_call: "quiet E \<Longrightarrow> registry (snd (call E f this args w)) = registry w"
  by (simp add: quiet_def registry_def)

lemma quiet_plain: "quiet plain"
  by (simp add: quiet_def plain_def)

lemma invoke_registry: "quiet E \<Longrightarrow> registry (snd (invoke E f this args w)) = registry w"
  using quiet_call [of E _ this args "w\<lparr>trace := []\<rparr>"]
  by (auto simp: invoke_def split: jsval.splits prod.splits) (metis snd_conv)

lemma deliver_registry: "quiet E \<Longrightarrow> registry (snd (deliver E obj s args w)) = registry w"
  using invoke_registry [of E "s_callback s" "receiver obj s" args w]
  by (auto simp: deliver_def split: prod.splits)

lemma trigger_events_registry:
  "quiet E \<Longrightarrow> registry (snd (trigger_events E obj rs w)) = registry w"
proof (induction rs arbitrary: w)
  case Nil
  then show ?case by simp
next
  case (Cons p rs)
  obtain s args where p: "p = (s, args)" by (cases p)
  obtain r w1 where d: "deliver E obj s args w = (r, w1)" by (cases "deliver E obj s args w")
  have w1: "registry w1 = registry w"
    using deliver_registry [OF Cons.prems, of obj s args w] d by simp
  show ?case
    using Cons.IH [OF Cons.prems, of w1] w1 d p by (cases r) simp_all
qed

lemma safe_trigger_events_registry:
  "quiet E \<Longrightarrow> registry (safe_trigger_events E obj rs w) = registry w"
proof (induction rs arbitrary: w)
  case Nil
  then show ?case by simp
next
  case (Cons p rs)
  obtain s args where p: "p = (s, args)" by (cases p)
  show ?case
    using Cons.IH [OF Cons.prems] deliver_registry [OF Cons.prems] p by simp
qed

lemma trigger_args_registry: "registry (snd (trigger_args name args w)) = registry w"
  by (cases args) (simp_all add: trigger_args_def alloc_def)

lemma Api_trigger_registry:
  "quiet E \<Longrightarrow> registry (snd (Api_trigger E this name args w)) = registry w"
proof -
  assume q: "quiet E"
  obtain a w1 where t: "trigger_args name args w = (a, w1)" by (cases "trigger_args name args w")
  have w1: "registry w1 = registry w" using trigger_args_registry [of name args w] t by simp
  have u: "registry (snd (Events_trigger E this name (Obj a) w1)) = registry w1"
    using trigger_events_registry [OF q, of this "recipients (events_of w1 this) name (Obj a)" w1]
    by (auto simp: Events_trigger_def split: prod.splits sum.splits)
  have s: "registry (snd (Events_triggerSafe E this name (Obj a) w1)) = registry w1"
    using safe_trigger_events_registry [OF q] by (simp add: Events_triggerSafe_def)
  show ?thesis using t w1 u s by (simp add: Api_trigger_def Let_def)
qed

lemma resetPlayer_registry:
  "quiet E \<Longrightarrow> registry (snd (resetPlayer E api c w)) = registry w"
proof -
  assume q: "quiet E"
  let ?w2 = "Events_off c Undefined Undefined Undefined (Events_off api Undefined Undefined Undefined w)"
  have w2: "registry ?w2 = registry w" by (simp add: Events_off_def)
  show ?thesis
    using invoke_registry [OF q, of "lookup (obj_props ?w2 c) ''playerDestroy''" "Obj c" "[]" ?w2] w2
    by (auto simp: resetPlayer_def Let_def split: prod.splits sum.splits)
qed

lemma setupController_registry:
  "registry (snd (setupController E api el w)) = registry w"
  by (simp add: setupController_def new_Controller_def alloc_def Events_on_def Let_def)

lemma Api_new_registry:
  "Api_new E el w = (a, w1) \<Longrightarrow>
     instancesCreated w1 = Suc (instancesCreated w) \<and> instances w1 = instances w \<and>
     h_uniqueId (handles w1 a) = instancesCreated w"
  by (auto simp: Api_new_def setupController_def new_Controller_def alloc_def Events_on_def
      qoe_tick_def Let_def split: prod.splits)

lemma foreach_events_registry:
  "quiet E \<Longrightarrow> registry (snd (foreach_events E this kvs w)) = registry w"
proof (induction kvs arbitrary: w)
  case Nil
  then show ?case by simp
next
  case (Cons p kvs)
  obtain evt val where p: "p = (evt, val)" by (cases p)
  show ?case
  proof (cases "Api_get w this evt")
    case (Fun f)
    obtain r w1 where i: "invoke E (Fun f) (Obj this) [val] w = (r, w1)"
      by (cases "invoke E (Fun f) (Obj this) [val] w")
    have w1: "registry w1 = registry w"
      using invoke_registry [OF Cons.prems, of "Fun f" "Obj this" "[val]" w] i by simp
    show ?thesis using Cons.IH [OF Cons.prems, of w1] w1 i p Fun by (cases r) simp_all
  qed (use Cons p in simp_all)
qed

lemma set_prop_registry: "set_prop v name x w = Inr w1 \<Longrightarrow> registry w1 = registry w"
  by (cases v) auto

lemma Api_setup_registry:
  "quiet E \<Longrightarrow> registry (snd (Api_setup E this options w)) = registry w"
proof -
  assume q: "quiet E"
  let ?w2 = "qoe_tick this ''setup'' (qoe_clear this ''ready'' w)"
  have w2: "registry ?w2 = registry w" by (simp add: qoe_tick_def qoe_clear_def)
  obtain r3 w3 where r: "resetPlayer E this (h_controller (handles ?w2 this)) ?w2 = (r3, w3)"
    by (cases "resetPlayer E this (h_controller (handles ?w2 this)) ?w2")
  have w3: "registry w3 = registry w"
    using resetPlayer_registry [OF q, of this "h_controller (handles ?w2 this)" ?w2] r w2 by simp
  obtain c w4 where s: "setupController E this (h_element (handles w this)) w3 = (c, w4)"
    by (cases "setupController E this (h_element (handles w this)) w3")
  have w4: "registry w4 = registry w"
    using setupController_registry [of E this "h_element (handles w this)" w3] s w3 by simp
  let ?w5 = "w4\<lparr>handles := (handles w4)(this := (handles w4 this)\<lparr>h_controller := c\<rparr>)\<rparr>"
  have w5: "registry ?w5 = registry w" using w4 by simp
  show ?thesis
  proof (cases r3)
    case (Inl e)
    then show ?thesis using r w3 by (simp add: Api_setup_def Let_def)
  next
    case (Inr u)
    show ?thesis
    proof (cases "get_prop ?w5 options ''events''")
      case (Inl e)
      then show ?thesis using r s Inr w5 by (simp add: Api_setup_def Let_def)
    next
      case ev: (Inr events)
      obtain r6 w6 where f: "foreach_events E this (entries ?w5 events) ?w5 = (r6, w6)"
        by (cases "foreach_events E this (entries ?w5 events) ?w5")
      have w6: "registry w6 = registry w"
        using foreach_events_registry [OF q, of this "entries ?w5 events" ?w5] f w5 by simp
      show ?thesis
      proof (cases r6)
        case (Inl e)
        then show ?thesis using r s Inr ev f w6 by (simp add: Api_setup_def Let_def)
      next
        case r6: (Inr u6)
        show ?thesis
        proof (cases "set_prop options ''id'' (Api_get w6 this ''id'') w6")
          case (Inl e)
          then show ?thesis using r s Inr ev f r6 w6 by (simp add: Api_setup_def Let_def)
        next
          case sp: (Inr w7)
          have w7: "registry w7 = registry w" using set_prop_registry [OF sp] w6 by simp
          let ?c = "h_controller (handles w7 this)"
          have "registry (snd (invoke E (lookup (obj_props w7 ?c) ''setup'') (Obj ?c) [options, Obj this] w7)) = registry w"
            using invoke_registry [OF q] w7 by simp
          then show ?thesis using r s Inr ev f r6 sp
            by (auto simp: Api_setup_def Let_def split: prod.splits sum.splits)
        qed
      qed
    qed
  qed
qed

lemma removePlayer_counter: "instancesCreated (removePlayer this w) = instancesCreated w"
  by (simp add: removePlayer_def)

lemma remove_counter:
  "quiet E \<Longrightarrow> instancesCreated (snd (remove E this w)) = instancesCreated w"
proof -
  assume q: "quiet E"
  let ?w1 = "removePlayer this w"
  obtain r2 w2 where t: "Api_trigger E this ''remove'' Undefined ?w1 = (r2, w2)"
    by (cases "Api_trigger E this ''remove'' Undefined ?w1")
  have w2: "registry w2 = registry ?w1"
    using Api_trigger_registry [OF q, of this "''remove''" Undefined ?w1] t by simp
  have w3: "registry (snd (resetPlayer E this (h_controller (handles w2 this)) w2)) = registry ?w1"
    using resetPlayer_registry [OF q] w2 by simp
  show ?thesis using t w2 w3 removePlayer_counter [of this w]
    by (auto simp: remove_def Let_def registry_def split: prod.splits sum.splits)
qed

lemma uniqueIds_from:
  "quiet E \<Longrightarrow> uniqueIds E ops w = [instancesCreated w ..< instancesCreated w + constructions ops]"
proof (induction ops arbitrary: w)
  case Nil
  then show ?case by simp
next
  case (Cons x ops)
  show ?case
  proof (cases x)
    case (Construct el)
    obtain a w1 where n: "Api_new E el w = (a, w1)" by (cases "Api_new E el w")
    have c: "instancesCreated (register a w1) = Suc (instancesCreated w)"
      and u: "h_uniqueId (handles w1 a) = instancesCreated w"
      using Api_new_registry [OF n] by (simp_all add: register_def)
    show ?thesis
      using Cons.IH [OF Cons.prems, of "register a w1"] n c u Construct
      by (simp add: upt_conv_Cons)
  next
    case (Setup api options)
    have "instancesCreated (snd (Api_setup E api options w)) = instancesCreated w"
      using Api_setup_registry [OF Cons.prems, of api options w] by (simp add: registry_def)
    then show ?thesis
      using Cons.IH [OF Cons.prems, of "snd (Api_setup E api options w)"] Setup by simp
  next
    case (Remove api)
    show ?thesis
      using Cons.IH [OF Cons.prems, of "snd (remove E api w)"] remove_counter [OF Cons.prems, of api w] Remove
      by simp
  qed
qed

subsection \<open>Unique identifiers\<close>

text \<open>C6. In a process that starts with the counter at zero, whatever constructions,
  setups and removals follow one another, the \<^verbatim>\<open>uniqueId\<close>s handed out are exactly
  \<open>0, 1, \<dots>, N - 1\<close> in construction order, \<open>N\<close> being the number of constructions:
  each is assigned once, they increase strictly, and removing a player never frees its
  number. (The environment is quiet: outside functions do not construct players
  themselves.)\<close>

theorem uniqueIds_count_up:
  "quiet E \<Longrightarrow> instancesCreated w = 0 \<Longrightarrow> uniqueIds E ops w = [0 ..< constructions ops]"
  using uniqueIds_from [of E ops w] by simp

theorem uniqueIds_count_up_example:
  "quiet plain \<and> instancesCreated page = 0 \<and>
   uniqueIds plain [Construct 0, Remove 2, Construct 1, Setup 6 (Obj 0), Construct 0] page = [0, 1, 2]"
  using uniqueIds_count_up [of plain page "[Construct 0, Remove 2, Construct 1, Setup 6 (Obj 0), Construct 0]"]
    quiet_plain
  by (simp add: page_def upt_rec)

subsection \<open>The instance registry\<close>

lemma removePlayer_loop_eq:
  "i \<le> length (instances w) \<Longrightarrow>
   removePlayer_loop w api i =
     rev (remove_first (\<lambda>a. h_uniqueId (handles w a) = h_uniqueId (handles w api))
            (rev (take i (instances w)))) @ drop i (instances w)"
proof (induction i)
  case 0
  then show ?case by simp
next
  case (Suc i)
  then have i: "i < length (instances w)" by simp
  have t: "take (Suc i) (instances w) = take i (instances w) @ [instances w ! i]"
    using i by (simp add: take_Suc_conv_app_nth)
  have d: "instances w ! i # drop (Suc i) (instances w) = drop i (instances w)"
    using i by (simp add: Cons_nth_drop_Suc)
  show ?case
    using Suc.IH i t d by simp
qed

lemma removePlayer_unregister: "instances (removePlayer api w) = unregister w api"
  using removePlayer_loop_eq [of "length (instances w)" w api]
  by (simp add: removePlayer_def unregister_def)

lemma remove_first_absent: "\<forall>x\<in>set xs. \<not> P x \<Longrightarrow> remove_first P xs = xs"
  by (induction xs) auto

lemma remove_first_length: "\<exists>x\<in>set xs. P x \<Longrightarrow> Suc (length (remove_first P xs)) = length xs"
  by (induction xs) auto

lemma Api_new_shape:
  "Api_new E el w = (a, w1) \<Longrightarrow>
     a = length (heap w) \<and> length (heap w1) = length (heap w) + 3 \<and>
     (\<forall>x. x \<noteq> a \<longrightarrow> handles w1 x = handles w x)"
  by (auto simp: Api_new_def setupController_def new_Controller_def alloc_def Events_on_def
      qoe_tick_def Let_def split: prod.splits)

lemma remove_instances:
  "quiet E \<Longrightarrow> instances (snd (remove E this w)) = unregister w this"
proof -
  assume q: "quiet E"
  let ?w1 = "removePlayer this w"
  obtain r2 w2 where t: "Api_trigger E this ''remove'' Undefined ?w1 = (r2, w2)"
    by (cases "Api_trigger E this ''remove'' Undefined ?w1")
  have w2: "registry w2 = registry ?w1"
    using Api_trigger_registry [OF q, of this "''remove''" Undefined ?w1] t by simp
  have w3: "registry (snd (resetPlayer E this (h_controller (handles w2 this)) w2)) = registry ?w1"
    using resetPlayer_registry [OF q] w2 by simp
  have "instances (snd (remove E this w)) = instances ?w1"
    using t w2 w3 by (auto simp: remove_def Let_def registry_def split: prod.splits sum.splits)
  then show ?thesis by (simp add: removePlayer_unregister)
qed

lemma two_players_scenario:
  assumes q: "quiet E" and c0: "instancesCreated w = 0" and i0: "instances w = []"
    and A: "Api_new E elA w = (a, w1)"
    and B: "Api_new E elB (register a w1) = (b, w2)"
  shows "h_uniqueId (handles w2 a) = 0 \<and> h_uniqueId (handles w2 b) = 1 \<and>
         instances (snd (remove E a (register b w2))) = [b]"
proof -
  have a: "a = length (heap w)" and l1: "length (heap w1) = length (heap w) + 3"
    using Api_new_shape [OF A] by simp_all
  have b: "b = length (heap w1)" and keep: "\<forall>x. x \<noteq> b \<longrightarrow> handles w2 x = handles (register a w1) x"
    using Api_new_shape [OF B] by (simp_all add: register_def)
  have ab: "a \<noteq> b" using a b l1 by simp
  have ua1: "h_uniqueId (handles w1 a) = 0" and c1: "instancesCreated w1 = 1" and i1: "instances w1 = []"
    using Api_new_registry [OF A] c0 i0 by simp_all
  have ua: "h_uniqueId (handles w2 a) = 0"
    using keep ab ua1 by (simp add: register_def)
  have ub: "h_uniqueId (handles w2 b) = 1" and i2: "instances w2 = [a]"
    using Api_new_registry [OF B] c1 i1 by (simp_all add: register_def)
  have "unregister (register b w2) a = [b]"
    using ua ub i2 by (simp add: unregister_def register_def)
  then show ?thesis using ua ub remove_instances [OF q, of a "register b w2"] by simp
qed

text \<open>C7. \<^verbatim>\<open>removePlayer\<close> takes out of the registry the first entry, scanning from the
  end, whose \<^verbatim>\<open>uniqueId\<close> is the handle's, and only that one; it has no error outcome, and
  when no entry matches the registry is left as it is. So on a fresh page, after player A
  (\<^verbatim>\<open>uniqueId\<close> 0) and player B (\<^verbatim>\<open>uniqueId\<close> 1) are constructed and registered and A is
  removed, the registry holds exactly B.\<close>

theorem removePlayer_unregisters_one:
  "instances (removePlayer api w) = unregister w api \<and>
   ((\<forall>a\<in>set (instances w). h_uniqueId (handles w a) \<noteq> h_uniqueId (handles w api)) \<longrightarrow>
      instances (removePlayer api w) = instances w) \<and>
   ((\<exists>a\<in>set (instances w). h_uniqueId (handles w a) = h_uniqueId (handles w api)) \<longrightarrow>
      Suc (length (instances (removePlayer api w))) = length (instances w)) \<and>
   (quiet E \<and> instancesCreated w = 0 \<and> instances w = [] \<longrightarrow>
      (let (a, w1) = Api_new E elA w;
           (b, w2) = Api_new E elB (register a w1)
       in h_uniqueId (handles w2 a) = 0 \<and> h_uniqueId (handles w2 b) = 1 \<and>
          instances (snd (remove E a (register b w2))) = [b]))"
proof -
  let ?P = "\<lambda>a. h_uniqueId (handles w a) = h_uniqueId (handles w api)"
  have 1: "instances (removePlayer api w) = unregister w api"
    by (rule removePlayer_unregister)
  have 2: "(\<forall>a\<in>set (instances w). \<not> ?P a) \<longrightarrow> instances (removePlayer api w) = instances w"
    using remove_first_absent [of "rev (instances w)" ?P] by (simp add: 1 unregister_def)
  have 3: "(\<exists>a\<in>set (instances w). ?P a) \<longrightarrow>
      Suc (length (instances (removePlayer api w))) = length (instances w)"
    using remove_first_length [of "rev (instances w)" ?P] by (simp add: 1 unregister_def)
  have 4: "quiet E \<and> instancesCreated w = 0 \<and> instances w = [] \<longrightarrow>
      (let (a, w1) = Api_new E elA w;
           (b, w2) = Api_new E elB (register a w1)
       in h_uniqueId (handles w2 a) = 0 \<and> h_uniqueId (handles w2 b) = 1 \<and>
          instances (snd (remove E a (register b w2))) = [b])"
    using two_players_scenario [of E w elA _ _ elB]
    by (auto simp: Let_def split: prod.splits)
  show ?thesis using 1 2 3 4 by blast
qed

theorem removePlayer_unregisters_one_example:
  "quiet plain \<and> instancesCreated page = 0 \<and> instances page = [] \<and>
   fst (Api_new plain 0 page) = 2 \<and>
   fst (Api_new plain 1 (register 2 (snd (Api_new plain 0 page)))) = 5 \<and>
   instances (register 5 (snd (Api_new plain 1 (register 2 (snd (Api_new plain 0 page)))))) = [2, 5] \<and>
   instances (snd (remove plain 2
     (register 5 (snd (Api_new plain 1 (register 2 (snd (Api_new plain 0 page)))))))) = [5]"
proof -
  have s: "instancesCreated page = 0" "instances page = []" by (simp_all add: page_def)
  have a: "Api_new plain 0 page = (2, snd (Api_new plain 0 page))"
    by (simp add: Api_new_def alloc_def page_def Let_def setupController_def new_Controller_def split: prod.splits)
  have b: "Api_new plain 1 (register 2 (snd (Api_new plain 0 page))) =
      (5, snd (Api_new plain 1 (register 2 (snd (Api_new plain 0 page)))))"
    by (simp add: Api_new_def alloc_def page_def Let_def setupController_def new_Controller_def
        register_def Events_on_def qoe_tick_def split: prod.splits)
  have i: "instances (register 5 (snd (Api_new plain 1 (register 2 (snd (Api_new plain 0 page)))))) = [2, 5]"
    by (simp add: Api_new_def alloc_def page_def Let_def setupController_def new_Controller_def
        register_def Events_on_def qoe_tick_def split: prod.splits)
  show ?thesis
    using removePlayer_unregisters_one [of 2 page plain 0 1] quiet_plain s a b i
    by (simp add: Let_def split: prod.splits)
qed

subsection \<open>Call forwarding\<close>

text \<open>C10. \<^verbatim>\<open>isBeforeComplete\<close> and \<^verbatim>\<open>isBeforePlay\<close> forward to the controller through
  \<^verbatim>\<open>callInternal\<close> (the world, trace included, is the one \<^verbatim>\<open>callInternal\<close> leaves) and
  drop what it answers: whenever they return, they return \<^verbatim>\<open>undefined\<close>, whatever the
  controller's state and answer; they throw only what \<^verbatim>\<open>callInternal\<close> throws.\<close>

theorem isBefore_accessors_discard_result:
  "fst (isBeforeComplete E this w) =
     (case fst (callInternal E this ''isBeforeComplete'' [] w) of Inl e \<Rightarrow> Inl e | Inr r \<Rightarrow> Inr Undefined) \<and>
   snd (isBeforeComplete E this w) = snd (callInternal E this ''isBeforeComplete'' [] w) \<and>
   fst (isBeforePlay E this w) =
     (case fst (callInternal E this ''isBeforePlay'' [] w) of Inl e \<Rightarrow> Inl e | Inr r \<Rightarrow> Inr Undefined) \<and>
   snd (isBeforePlay E this w) = snd (callInternal E this ''isBeforePlay'' [] w)"
  by (simp add: isBeforeComplete_def isBeforePlay_def split: prod.splits sum.splits)

lemma player_eq:
  "player = \<lparr>instancesCreated = 1, instances = [], window_jwplayer = Undefined,
     heap = [[(''id'', Str ''a'')], [(''id'', Str ''b'')], [], [],
             [(''setup'', Fun (Ext 1)), (''playerDestroy'', Fun (Ext 2)),
              (''setVolume'', Fun (Ext 3)), (''isBeforeComplete'', Fun (Ext 4)), (''_model'', Obj 0)]],
     events_of = (\<lambda>a. [])(2 := [], 4 := [
        \<lparr>s_name = ''ready'', s_callback = Fun (ReadyHook 2), s_context = Undefined, s_once = False\<rparr>,
        \<lparr>s_name = ''all'', s_callback = Fun (AllHook 2), s_context = Undefined, s_once = False\<rparr>]),
     handles = (\<lambda>a. no_handle)(2 := \<lparr>h_id = Str ''a'', h_uniqueId = 0, h_plugins = 3, h_element = 0, h_controller = 4\<rparr>),
     trace = [QoeTick 2 ''init'', NewController 2 4,
              Subscribed 4 ''ready'' (Fun (ReadyHook 2)), Subscribed 4 ''all'' (Fun (AllHook 2))]\<rparr>"
  by (simp add: player_def Api_new_def alloc_def page_def plain_def Let_def setupController_def
      new_Controller_def Events_on_def qoe_tick_def obj_props_def lookup_def eval_nat_numeral)

theorem isBefore_accessors_discard_result_example:
  "fst (callInternal plain 2 ''isBeforeComplete'' [] player) = Inr (JBool True) \<and>
   fst (isBeforeComplete plain 2 player) = Inr Undefined \<and>
   trace (snd (isBeforeComplete plain 2 player)) = trace player @ [Called (Fun (Ext 4)) (Obj 4) [] []] \<and>
   fst (isBeforePlay plain 2 player) = Inr Undefined"
proof -
  have c: "callInternal plain 2 ''isBeforeComplete'' [] player =
      (Inr (JBool True), player\<lparr>trace := trace player @ [Called (Fun (Ext 4)) (Obj 4) [] []]\<rparr>)"
    by (simp add: player_eq callInternal_def apply_method_def invoke_def plain_def obj_props_def lookup_def Let_def)
  have p: "callInternal plain 2 ''isBeforePlay'' [] player = (Inr Null, player)"
    by (simp add: player_eq callInternal_def apply_method_def invoke_def plain_def obj_props_def lookup_def Let_def)
  show ?thesis
    using isBefore_accessors_discard_result [of plain 2 player] c p by simp
qed

text \<open>C3, as amended. \<^verbatim>\<open>callInternal\<close> reads the property of the handle's current
  controller under the given name. When it is a function, that function is called with the
  given arguments and the controller as receiver, and its outcome, result and effects, is
  the outcome of \<^verbatim>\<open>callInternal\<close>. When the property is missing or otherwise falsy,
  \<^verbatim>\<open>callInternal\<close> returns \<^verbatim>\<open>null\<close> and nothing else happens.\<close>

theorem callInternal_resolves:
  "(\<forall>f. lookup (obj_props w (h_controller (handles w this))) name = Fun f \<longrightarrow>
      callInternal E this name args w =
        (let c = h_controller (handles w this);
             (r, w') = call E f (Obj c) args (w\<lparr>trace := []\<rparr>)
         in (r, w'\<lparr>trace := trace w @ [Called (Fun f) (Obj c) args (trace w')]\<rparr>))) \<and>
   (\<not> truthy (lookup (obj_props w (h_controller (handles w this))) name) \<longrightarrow>
      callInternal E this name args w = (Inr Null, w))"
  by (simp add: callInternal_def apply_method_def invoke_def Let_def)

text \<open>C3 as stated fails: the controller of the scenario keeps its model under
  \<^verbatim>\<open>_model\<close>; no operation exists under that name, yet \<^verbatim>\<open>callInternal\<close> throws
  instead of returning \<^verbatim>\<open>null\<close> (the guard is a test for truthiness, and the model
  object has no \<^verbatim>\<open>apply\<close> to call).\<close>

theorem callInternal_data_property_throws:
  "lookup (obj_props player (h_controller (handles player 2))) ''_model'' = Obj 0 \<and>
   fst (callInternal plain 2 ''_model'' [Num 1] player) = Inl TypeError"
  by (simp add: player_eq callInternal_def apply_method_def alloc_def invoke_def plain_def
      obj_props_def lookup_def Let_def)

theorem callInternal_resolves_example:
  "lookup (obj_props player (h_controller (handles player 2))) ''setVolume'' = Fun (Ext 3) \<and>
   callInternal plain 2 ''setVolume'' [Num 50] player =
     (Inr Undefined, player\<lparr>trace := trace player @ [Called (Fun (Ext 3)) (Obj 4) [Num 50] []]\<rparr>) \<and>
   \<not> truthy (lookup (obj_props player (h_controller (handles player 2))) ''nonexistentOp'') \<and>
   callInternal plain 2 ''nonexistentOp'' [] player = (Inr Null, player)"
proof -
  have h: "h_controller (handles player 2) = 4" by (simp add: player_eq)
  have l: "lookup (obj_props player 4) ''setVolume'' = Fun (Ext 3)"
    "lookup (obj_props player 4) ''nonexistentOp'' = Undefined"
    by (simp_all add: player_eq obj_props_def lookup_def)
  have c: "call plain (Ext 3) (Obj 4) [Num 50] (player\<lparr>trace := []\<rparr>) = (Inr Undefined, player\<lparr>trace := []\<rparr>)"
    by (simp add: plain_def)
  show ?thesis
    using callInternal_resolves [of player 2 "''setVolume''" plain "[Num 50]"]
      callInternal_resolves [of player 2 "''nonexistentOp''" plain "[]"] h l c
    by (simp add: Let_def)
qed

lemma invoke_trace:
  "\<exists>sub. trace (snd (invoke E f this args w)) = trace w @ [Called f this args sub]"
  by (cases f) (auto simp: invoke_def split: prod.splits)

lemma deliver_trace:
  "\<exists>sub. trace (snd (deliver E obj s args w)) =
     trace w @ [Called (s_callback s) (receiver obj s) args sub]"
  using invoke_trace [of E "s_callback s" "receiver obj s" args w]
  by (auto simp: deliver_def split: prod.splits)

lemma safe_trigger_events_trace:
  "\<exists>tr. trace (safe_trigger_events E obj rs w) = trace w @ tr \<and> map call_of tr = deliveries obj rs"
proof (induction rs arbitrary: w)
  case Nil
  then show ?case by (simp add: deliveries_def)
next
  case (Cons p rs)
  obtain s args where p: "p = (s, args)" by (cases p)
  let ?w1 = "snd (deliver E obj s args w)"
  obtain sub where d: "trace ?w1 = trace w @ [Called (s_callback s) (receiver obj s) args sub]"
    using deliver_trace by blast
  obtain tr where t: "trace (safe_trigger_events E obj rs ?w1) = trace ?w1 @ tr"
    "map call_of tr = deliveries obj rs"
    using Cons.IH by blast
  have "trace (safe_trigger_events E obj (p # rs) w) =
      trace w @ (Called (s_callback s) (receiver obj s) args sub # tr)"
    using p d t by simp
  moreover have "map call_of (Called (s_callback s) (receiver obj s) args sub # tr) = deliveries obj (p # rs)"
    using p t by (simp add: deliveries_def)
  ultimately show ?case by blast
qed

lemma trigger_events_trace:
  "\<exists>tr. trace (snd (trigger_events E obj rs w)) = trace w @ tr \<and>
        map call_of tr = take (length tr) (deliveries obj rs) \<and>
        (\<forall>u. fst (trigger_events E obj rs w) = Inr u \<longrightarrow> length tr = length rs)"
proof (induction rs arbitrary: w)
  case Nil
  then show ?case by (simp add: deliveries_def)
next
  case (Cons p rs)
  obtain s args where p: "p = (s, args)" by (cases p)
  obtain r w1 where dl: "deliver E obj s args w = (r, w1)" by (cases "deliver E obj s args w")
  obtain sub where d: "trace w1 = trace w @ [Called (s_callback s) (receiver obj s) args sub]"
    using deliver_trace [of E obj s args w] dl by auto
  let ?c = "Called (s_callback s) (receiver obj s) args sub"
  show ?case
  proof (cases r)
    case (Inl e)
    have "trace (snd (trigger_events E obj (p # rs) w)) = trace w @ [?c]"
      using p dl d Inl by simp
    moreover have "map call_of [?c] = take (length [?c]) (deliveries obj (p # rs))"
      using p by (simp add: deliveries_def)
    moreover have "\<forall>u. fst (trigger_events E obj (p # rs) w) = Inr u \<longrightarrow> length [?c] = length (p # rs)"
      using p dl Inl by simp
    ultimately show ?thesis by blast
  next
    case (Inr v)
    obtain tr where t: "trace (snd (trigger_events E obj rs w1)) = trace w1 @ tr"
      "map call_of tr = take (length tr) (deliveries obj rs)"
      "\<forall>u. fst (trigger_events E obj rs w1) = Inr u \<longrightarrow> length tr = length rs"
      using Cons.IH by blast
    have "trace (snd (trigger_events E obj (p # rs) w)) = trace w @ (?c # tr)"
      using p dl d Inr t by simp
    moreover have "map call_of (?c # tr) = take (length (?c # tr)) (deliveries obj (p # rs))"
      using p t by (simp add: deliveries_def)
    moreover have "\<forall>u. fst (trigger_events E obj (p # rs) w) = Inr u \<longrightarrow> length (?c # tr) = length (p # rs)"
      using p dl Inr t by simp
    ultimately show ?thesis by blast
  qed
qed

lemma trigger_args_eq:
  "trigger_args name args w =
     (length (heap w), w\<lparr>heap := heap w @ [AList.update ''type'' (Str name) (entries w args)]\<rparr>)"
  by (cases args) (auto simp: trigger_args_def alloc_def obj_props_def Let_def)

lemma trigger_args_shape:
  "trigger_args name args w = (a, w1) \<Longrightarrow>
     a = length (heap w) \<and>
     w1 = w\<lparr>heap := heap w @ [AList.update ''type'' (Str name) (entries w args)]\<rparr>"
  by (auto simp: trigger_args_eq)

lemma debug_flag_eq:
  "valid_ref w (window_jwplayer w) \<Longrightarrow>
   (truthy (window_jwplayer (w\<lparr>heap := heap w @ [x]\<rparr>)) \<and>
      (case get_prop (w\<lparr>heap := heap w @ [x]\<rparr>) (window_jwplayer (w\<lparr>heap := heap w @ [x]\<rparr>)) ''debug'' of
         Inr d \<Rightarrow> truthy d | Inl e \<Rightarrow> False)) = debug_flag w"
  by (cases "window_jwplayer w") (auto simp: debug_flag_def obj_props_def nth_append)

subsection \<open>The public trigger\<close>

text \<open>C5. The public \<^verbatim>\<open>trigger\<close> of a handle dispatches the normalized payload through
  \<^verbatim>\<open>Events.trigger\<close>, which lets a subscriber's exception through, exactly when the debug
  flag is set, and through \<^verbatim>\<open>Events.triggerSafe\<close> otherwise; with \<^verbatim>\<open>window.jwplayer\<close>
  absent the flag is not set.\<close>

theorem trigger_selects_variant:
  "valid_ref w (window_jwplayer w) \<Longrightarrow>
   Api_trigger E this name args w =
     (let (a, w1) = trigger_args name args w
      in if debug_flag w then Events_trigger E this name (Obj a) w1
         else Events_triggerSafe E this name (Obj a) w1) \<and>
   (absent (window_jwplayer w) \<longrightarrow> \<not> debug_flag w)"
proof -
  assume v: "valid_ref w (window_jwplayer w)"
  obtain a w1 where t: "trigger_args name args w = (a, w1)" by (cases "trigger_args name args w")
  have w1: "w1 = w\<lparr>heap := heap w @ [AList.update ''type'' (Str name) (entries w args)]\<rparr>"
    using trigger_args_shape [OF t] by simp
  have "Api_trigger E this name args w =
     (if debug_flag w then Events_trigger E this name (Obj a) w1
      else Events_triggerSafe E this name (Obj a) w1)"
    using t debug_flag_eq [OF v, of "AList.update ''type'' (Str name) (entries w args)"]
    unfolding Api_trigger_def Let_def w1 by simp
  moreover have "absent (window_jwplayer w) \<longrightarrow> \<not> debug_flag w"
    by (auto simp: absent_def debug_flag_def)
  ultimately show ?thesis using t by simp
qed

lemma listening_eq:
  "listening = player\<lparr>events_of := (events_of player)(2 := [
        \<lparr>s_name = ''x'', s_callback = Fun (Ext 0), s_context = Undefined, s_once = False\<rparr>,
        \<lparr>s_name = ''x'', s_callback = Fun (Ext 5), s_context = Undefined, s_once = False\<rparr>,
        \<lparr>s_name = ''all'', s_callback = Fun (Ext 6), s_context = Undefined, s_once = False\<rparr>]),
      trace := trace player @ [Subscribed 2 ''x'' (Fun (Ext 0)), Subscribed 2 ''x'' (Fun (Ext 5)),
        Subscribed 2 ''all'' (Fun (Ext 6))]\<rparr>"
  by (simp add: listening_def Api_on_def Events_on_def player_eq)

lemma dispatch_defs:
  "call plain f this args w =
     (if f = Ext 0 then Inl (Thrown (Str ''boom''))
      else if f = Ext 4 then Inr (JBool True) else Inr Undefined, w)"
  by (simp add: plain_def)

theorem trigger_selects_variant_example:
  "valid_ref listening (window_jwplayer listening) \<and> \<not> debug_flag listening \<and>
   fst (Api_trigger plain 2 ''x'' Undefined listening) = Inr (Obj 2) \<and>
   map call_of (drop (length (trace listening)) (trace (snd (Api_trigger plain 2 ''x'' Undefined listening)))) =
     [Some (Fun (Ext 0), Obj 2, [Obj 5]), Some (Fun (Ext 5), Obj 2, [Obj 5]),
      Some (Fun (Ext 6), Obj 2, [Str ''x'', Obj 5])] \<and>
   valid_ref (debugging listening) (window_jwplayer (debugging listening)) \<and>
   debug_flag (debugging listening) \<and>
   fst (Api_trigger plain 2 ''x'' Undefined (debugging listening)) = Inl (Thrown (Str ''boom'')) \<and>
   map call_of (drop (length (trace listening)) (trace (snd (Api_trigger plain 2 ''x'' Undefined (debugging listening))))) =
     [Some (Fun (Ext 0), Obj 2, [Obj 6])]"
proof -
  have v1: "valid_ref listening (window_jwplayer listening)"
    by (simp add: listening_eq player_eq)
  have v2: "valid_ref (debugging listening) (window_jwplayer (debugging listening))"
    by (simp add: debugging_def alloc_def listening_eq player_eq)
  have f1: "\<not> debug_flag listening"
    by (simp add: debug_flag_def listening_eq player_eq)
  have f2: "debug_flag (debugging listening)"
    by (simp add: debug_flag_def debugging_def alloc_def listening_eq player_eq obj_props_def lookup_def)
  have a1: "fst (Api_trigger plain 2 ''x'' Undefined listening) = Inr (Obj 2) \<and>
     map call_of (drop (length (trace listening)) (trace (snd (Api_trigger plain 2 ''x'' Undefined listening)))) =
     [Some (Fun (Ext 0), Obj 2, [Obj 5]), Some (Fun (Ext 5), Obj 2, [Obj 5]),
      Some (Fun (Ext 6), Obj 2, [Str ''x'', Obj 5])]"
    using trigger_selects_variant [OF v1, of plain 2 "''x''" Undefined] f1
    by (simp add: trigger_args_def alloc_def Let_def Events_triggerSafe_def recipients_def
        deliver_def invoke_def receiver_def absent_def dispatch_defs listening_eq player_eq obj_props_def)
  have a2: "fst (Api_trigger plain 2 ''x'' Undefined (debugging listening)) = Inl (Thrown (Str ''boom'')) \<and>
     map call_of (drop (length (trace listening)) (trace (snd (Api_trigger plain 2 ''x'' Undefined (debugging listening))))) =
     [Some (Fun (Ext 0), Obj 2, [Obj 6])]"
    using trigger_selects_variant [OF v2, of plain 2 "''x''" Undefined] f2
    by (simp add: trigger_args_def alloc_def Let_def Events_trigger_def recipients_def debugging_def
        deliver_def invoke_def receiver_def absent_def dispatch_defs listening_eq player_eq obj_props_def)
  show ?thesis using v1 v2 f1 f2 a1 a2 by simp
qed

lemma Api_trigger_trace:
  "Api_trigger E this name args w = (r, w') \<Longrightarrow>
   \<exists>tr. trace w' = trace w @ tr \<and>
        map call_of tr =
          take (length tr) (deliveries this (recipients (events_of w this) name (Obj (length (heap w))))) \<and>
        (\<forall>u. r = Inr u \<longrightarrow>
           length tr = length (recipients (events_of w this) name (Obj (length (heap w)))))"
proof -
  assume A: "Api_trigger E this name args w = (r, w')"
  let ?a = "length (heap w)"
  let ?w1 = "w\<lparr>heap := heap w @ [AList.update ''type'' (Str name) (entries w args)]\<rparr>"
  let ?rs = "recipients (events_of w this) name (Obj ?a)"
  have t: "trigger_args name args w = (?a, ?w1)" by (rule trigger_args_eq)
  show ?thesis
  proof (cases "truthy (window_jwplayer ?w1) \<and>
      (case get_prop ?w1 (window_jwplayer ?w1) ''debug'' of Inr d \<Rightarrow> truthy d | Inl e \<Rightarrow> False)")
    case True
    obtain tr where tr: "trace (snd (trigger_events E this ?rs ?w1)) = trace ?w1 @ tr"
      "map call_of tr = take (length tr) (deliveries this ?rs)"
      "\<forall>u. fst (trigger_events E this ?rs ?w1) = Inr u \<longrightarrow> length tr = length ?rs"
      using trigger_events_trace [of E this ?rs ?w1] by blast
    have e: "Api_trigger E this name args w = Events_trigger E this name (Obj ?a) ?w1"
      using t True by (simp add: Api_trigger_def Let_def)
    have w': "w' = snd (trigger_events E this ?rs ?w1)"
      using A e by (auto simp: Events_trigger_def split: prod.splits sum.splits)
    have "\<forall>u. r = Inr u \<longrightarrow> (\<exists>v. fst (trigger_events E this ?rs ?w1) = Inr v)"
      using A e by (auto simp: Events_trigger_def split: prod.splits sum.splits)
    then have len: "\<forall>u. r = Inr u \<longrightarrow> length tr = length ?rs"
      using tr(3) by blast
    have "trace w' = trace w @ tr" using w' tr(1) by simp
    then show ?thesis using tr(2) len by blast
  next
    case False
    obtain tr where tr: "trace (safe_trigger_events E this ?rs ?w1) = trace ?w1 @ tr"
      "map call_of tr = deliveries this ?rs"
      using safe_trigger_events_trace [of E this ?rs ?w1] by blast
    have l: "length tr = length ?rs"
      using arg_cong [OF tr(2), of length] by (simp add: deliveries_def)
    have e: "Api_trigger E this name args w = Events_triggerSafe E this name (Obj ?a) ?w1"
      using t False by (auto simp: Api_trigger_def Let_def)
    have "w' = safe_trigger_events E this ?rs ?w1"
      using A e by (simp add: Events_triggerSafe_def)
    then have "trace w' = trace w @ tr" using tr(1) by simp
    moreover have "map call_of tr = take (length tr) (deliveries this ?rs)"
      using tr(2) l by (simp add: deliveries_def)
    ultimately show ?thesis using l by blast
  qed
qed

lemma Api_trigger_safe_returns:
  "valid_ref w (window_jwplayer w) \<Longrightarrow> \<not> debug_flag w \<Longrightarrow>
   fst (Api_trigger E this name args w) = Inr (Obj this)"
  using debug_flag_eq [of w "AList.update ''type'' (Str name) (entries w args)"]
  by (auto simp: Api_trigger_def trigger_args_eq Let_def Events_triggerSafe_def)

lemma trigger_events_throws:
  "fst (trigger_events E obj rs w) = Inl e \<Longrightarrow>
   length (trace w) < length (trace (snd (trigger_events E obj rs w)))"
proof (induction rs arbitrary: w)
  case Nil
  then show ?case by simp
next
  case (Cons p rs)
  obtain s args where p: "p = (s, args)" by (cases p)
  obtain r w1 where dl: "deliver E obj s args w = (r, w1)" by (cases "deliver E obj s args w")
  obtain sub where d: "trace w1 = trace w @ [Called (s_callback s) (receiver obj s) args sub]"
    using deliver_trace [of E obj s args w] dl by auto
  show ?case
  proof (cases r)
    case (Inl e')
    then show ?thesis using p dl d by simp
  next
    case (Inr v)
    then have "fst (trigger_events E obj rs w1) = Inl e" using Cons.prems p dl by simp
    then have "length (trace w1) < length (trace (snd (trigger_events E obj rs w1)))"
      by (rule Cons.IH)
    then show ?thesis using p dl d Inr by simp
  qed
qed

lemma Api_trigger_outcome:
  "(\<forall>u. fst (Api_trigger E this name args w) = Inr u \<longrightarrow> u = Obj this) \<and>
   (\<forall>e. fst (Api_trigger E this name args w) = Inl e \<longrightarrow>
      length (trace w) < length (trace (snd (Api_trigger E this name args w))))"
proof -
  let ?a = "length (heap w)"
  let ?w1 = "w\<lparr>heap := heap w @ [AList.update ''type'' (Str name) (entries w args)]\<rparr>"
  let ?rs = "recipients (events_of ?w1 this) name (Obj ?a)"
  have t: "\<forall>e. fst (trigger_events E this ?rs ?w1) = Inl e \<longrightarrow>
      length (trace w) < length (trace (snd (trigger_events E this ?rs ?w1)))"
    using trigger_events_throws [of E this ?rs ?w1] by simp
  show ?thesis
  proof (cases "truthy (window_jwplayer ?w1) \<and>
      (case get_prop ?w1 (window_jwplayer ?w1) ''debug'' of Inr d \<Rightarrow> truthy d | Inl e \<Rightarrow> False)")
    case True
    then have e: "Api_trigger E this name args w = Events_trigger E this name (Obj ?a) ?w1"
      by (simp add: Api_trigger_def trigger_args_eq Let_def)
    show ?thesis
      unfolding e using t
      by (cases "trigger_events E this ?rs ?w1"; cases "fst (trigger_events E this ?rs ?w1)")
        (auto simp: Events_trigger_def)
  next
    case False
    then have e: "Api_trigger E this name args w = Events_triggerSafe E this name (Obj ?a) ?w1"
      by (auto simp: Api_trigger_def trigger_args_eq Let_def)
    show ?thesis unfolding e by (simp add: Events_triggerSafe_def)
  qed
qed



lemma setupController_eq:
  "setupController E api element w =
     (length (heap w),
      w\<lparr>heap := heap w @ [controller_props E element],
        events_of := (events_of w)(length (heap w) :=
          [\<lparr>s_name = ''ready'', s_callback = Fun (ReadyHook api), s_context = Undefined, s_once = False\<rparr>,
           \<lparr>s_name = ''all'', s_callback = Fun (AllHook api), s_context = Undefined, s_once = False\<rparr>]),
        trace := trace w @ [NewController api (length (heap w)),
          Subscribed (length (heap w)) ''ready'' (Fun (ReadyHook api)),
          Subscribed (length (heap w)) ''all'' (Fun (AllHook api))]\<rparr>)"
  by (simp add: setupController_def new_Controller_def alloc_def Events_on_def Let_def)

subsection \<open>Removal\<close>

lemma detached_simps:
  "trace (detached api c w) = trace w @ [Unsubscribed api Undefined Undefined Undefined,
      Unsubscribed c Undefined Undefined Undefined]"
  "events_of (detached api c w) = (events_of w)(api := [], c := [])"
  "heap (detached api c w) = heap w"
  "handles (detached api c w) = handles w"
  "obj_props (detached api c w) = obj_props w"
  by (simp_all add: detached_def Events_off_def off_matches_def absent_def obj_props_def fun_eq_iff)

lemma resetPlayer_detached:
  "resetPlayer E api c w =
     (if truthy (lookup (obj_props w c) ''playerDestroy'')
      then (case invoke E (lookup (obj_props w c) ''playerDestroy'') (Obj c) [] (detached api c w) of
              (Inl e, w3) \<Rightarrow> (Inl e, w3)
            | (Inr r, w3) \<Rightarrow> (Inr (), w3))
      else (Inr (), detached api c w))"
  by (simp add: resetPlayer_def Let_def detached_simps(5) [unfolded detached_def] detached_def)

text \<open>C2. What \<^verbatim>\<open>remove\<close> does, in order. The handle is unregistered. The
  \<^verbatim>\<open>remove\<close> event is delivered to the subscribers registered when \<^verbatim>\<open>remove\<close> was
  called, those under the event's name first and those under the wildcard after, in
  registration order: to all of them when the delivery returns, which it always does in the
  default mode. Only then comes the teardown, of the controller the handle holds at that
  moment: the handle's listeners are detached, that controller's listeners are detached
  (both lists are empty from then on), and that controller's destroy hook is called, in
  this world, exactly when it has one; \<^verbatim>\<open>remove\<close> returns the handle unless the hook
  throws. The teardown is skipped only when a subscriber's exception escapes in debug mode,
  and \<^verbatim>\<open>remove\<close> ends with that exception.\<close>

theorem remove_event_before_teardown:
  assumes A: "remove E this w = (r, w')"
  shows "let w1 = removePlayer this w;
             T = Api_trigger E this ''remove'' Undefined w1;
             w2 = snd T;
             owed = deliveries this (recipients (events_of w this) ''remove'' (Obj (length (heap w))))
         in trace w1 = trace w @ [Unregistered this] \<and>
            (\<exists>delivered. trace w2 = trace w1 @ delivered \<and>
               map call_of delivered = take (length delivered) owed \<and>
               (case fst T of Inr u \<Rightarrow> map call_of delivered = owed | Inl e \<Rightarrow> delivered \<noteq> [])) \<and>
            (case fst T of
               Inl e \<Rightarrow> r = Inl e \<and> w' = w2
             | Inr u \<Rightarrow>
                 (let c = h_controller (handles w2 this);
                      destroy = lookup (obj_props w2 c) ''playerDestroy'';
                      wd = detached this c w2
                  in trace wd = trace w2 @ [Unsubscribed this Undefined Undefined Undefined,
                                            Unsubscribed c Undefined Undefined Undefined] \<and>
                     events_of wd this = [] \<and> events_of wd c = [] \<and>
                     (if truthy destroy
                      then w' = snd (invoke E destroy (Obj c) [] wd) \<and>
                           (\<exists>sub. trace w' = trace wd @ [Called destroy (Obj c) [] sub]) \<and>
                           r = (case fst (invoke E destroy (Obj c) [] wd) of
                                  Inl e \<Rightarrow> Inl e | Inr x \<Rightarrow> Inr (Obj this))
                      else w' = wd \<and> r = Inr (Obj this)))) \<and>
            (valid_ref w (window_jwplayer w) \<and> \<not> debug_flag w \<longrightarrow> fst T = Inr (Obj this))"
proof -
  let ?w1 = "removePlayer this w"
  let ?T = "Api_trigger E this ''remove'' Undefined ?w1"
  let ?w2 = "snd ?T"
  let ?owed = "deliveries this (recipients (events_of w this) ''remove'' (Obj (length (heap w))))"
  have w1: "trace ?w1 = trace w @ [Unregistered this]" "events_of ?w1 = events_of w" "heap ?w1 = heap w"
    "window_jwplayer ?w1 = window_jwplayer w"
    by (simp_all add: removePlayer_def)
  have df1: "debug_flag ?w1 = debug_flag w"
    by (cases "window_jwplayer w") (simp_all add: debug_flag_def removePlayer_def obj_props_def)
  have df2: "valid_ref ?w1 (window_jwplayer ?w1) = valid_ref w (window_jwplayer w)"
    by (cases "window_jwplayer w") (simp_all add: removePlayer_def)
  have T: "?T = (fst ?T, ?w2)" by simp
  obtain d where d: "trace ?w2 = trace ?w1 @ d"
    "map call_of d = take (length d) ?owed"
    "\<forall>u. fst ?T = Inr u \<longrightarrow> length d = length (recipients (events_of w this) ''remove'' (Obj (length (heap w))))"
    using Api_trigger_trace [OF T] unfolding w1 by blast
  have o: "\<forall>u. fst ?T = Inr u \<longrightarrow> u = Obj this"
    "\<forall>e. fst ?T = Inl e \<longrightarrow> length (trace ?w1) < length (trace ?w2)"
    using Api_trigger_outcome [of E this "''remove''" Undefined ?w1] by simp_all
  have c1: "case fst ?T of Inr u \<Rightarrow> map call_of d = ?owed | Inl e \<Rightarrow> d \<noteq> []"
  proof (cases "fst ?T")
    case (Inl e)
    then show ?thesis using o(2) d(1) by auto
  next
    case (Inr u)
    then have "length d = length ?owed" using d(3) by (simp add: deliveries_def)
    then show ?thesis using Inr d(2) by simp
  qed
  have p2: "\<exists>delivered. trace ?w2 = trace ?w1 @ delivered \<and>
               map call_of delivered = take (length delivered) ?owed \<and>
               (case fst ?T of Inr u \<Rightarrow> map call_of delivered = ?owed | Inl e \<Rightarrow> delivered \<noteq> [])"
    by (intro exI [of _ d] conjI d(1) d(2) c1)
  let ?c = "h_controller (handles ?w2 this)"
  let ?destroy = "lookup (obj_props ?w2 ?c) ''playerDestroy''"
  let ?wd = "detached this ?c ?w2"
  have p3: "case fst ?T of
               Inl e \<Rightarrow> r = Inl e \<and> w' = ?w2
             | Inr u \<Rightarrow>
                 (trace ?wd = trace ?w2 @ [Unsubscribed this Undefined Undefined Undefined,
                                            Unsubscribed ?c Undefined Undefined Undefined] \<and>
                     events_of ?wd this = [] \<and> events_of ?wd ?c = [] \<and>
                     (if truthy ?destroy
                      then w' = snd (invoke E ?destroy (Obj ?c) [] ?wd) \<and>
                           (\<exists>sub. trace w' = trace ?wd @ [Called ?destroy (Obj ?c) [] sub]) \<and>
                           r = (case fst (invoke E ?destroy (Obj ?c) [] ?wd) of
                                  Inl e \<Rightarrow> Inl e | Inr x \<Rightarrow> Inr (Obj this))
                      else w' = ?wd \<and> r = Inr (Obj this)))"
  proof (cases "fst ?T")
    case (Inl e)
    obtain r2 w2 where Te: "?T = (r2, w2)" by (cases ?T)
    have "r = Inl e \<and> w' = w2" using A Te Inl by (simp add: remove_def Let_def)
    then show ?thesis using Inl Te by simp
  next
    case (Inr u)
    obtain r2 w2 where Te: "?T = (r2, w2)" by (cases ?T)
    have "(r, w') = (case resetPlayer E this (h_controller (handles w2 this)) w2 of
                (Inl e, w3) \<Rightarrow> (Inl e, w3)
              | (Inr u, w3) \<Rightarrow> (Inr (Obj this), w3))"
      using A Te Inr by (simp add: remove_def Let_def)
    then have R: "(r, w') = (case resetPlayer E this ?c ?w2 of
                (Inl e, w3) \<Rightarrow> (Inl e, w3)
              | (Inr u, w3) \<Rightarrow> (Inr (Obj this), w3))"
      using Te by simp
    show ?thesis
    proof (cases "truthy ?destroy")
      case True
      obtain r3 w3 where i: "invoke E ?destroy (Obj ?c) [] ?wd = (r3, w3)"
        by (cases "invoke E ?destroy (Obj ?c) [] ?wd")
      obtain sub where s: "trace w3 = trace ?wd @ [Called ?destroy (Obj ?c) [] sub]"
        using invoke_trace [of E ?destroy "Obj ?c" "[]" ?wd] i by auto
      have "w' = w3 \<and> r = (case r3 of Inl e \<Rightarrow> Inl e | Inr x \<Rightarrow> Inr (Obj this))"
        using R True i by (cases r3) (simp_all add: resetPlayer_detached)
      then show ?thesis using Inr True i s by (simp add: detached_simps)
    next
      case False
      then have "w' = ?wd \<and> r = Inr (Obj this)"
        using R by (simp add: resetPlayer_detached)
      then show ?thesis using Inr False by (simp add: detached_simps)
    qed
  qed
  have p4: "valid_ref w (window_jwplayer w) \<and> \<not> debug_flag w \<longrightarrow> fst ?T = Inr (Obj this)"
    using Api_trigger_safe_returns [of ?w1 E this "''remove''" Undefined] df1 df2 by simp
  show ?thesis
    unfolding Let_def by (intro conjI w1(1) p2 p3 [unfolded Let_def] p4)
qed

lemma Api_get_trace [simp]: "Api_get (w\<lparr>trace := t\<rparr>) this name = Api_get w this name"
  by (simp add: Api_get_def obj_props_def)

subsection \<open>Setup\<close>

lemma Api_setup_eq:
  "Api_setup E this options w =
     (case resetPlayer E this (h_controller (handles w this))
             (qoe_tick this ''setup'' (qoe_clear this ''ready'' w)) of
        (Inl e, w3) \<Rightarrow> (Inl e, w3)
      | (Inr u, w3) \<Rightarrow>
          bind_events E this options
            ((snd (setupController E this (h_element (handles w this)) w3))
               \<lparr>handles := (handles (snd (setupController E this (h_element (handles w this)) w3)))
                  (this := (handles (snd (setupController E this (h_element (handles w this)) w3)) this)
                     \<lparr>h_controller := fst (setupController E this (h_element (handles w this)) w3)\<rparr>)\<rparr>))"
  by (simp add: Api_setup_def bind_events_def Let_def qoe_tick_def qoe_clear_def
      split: prod.splits sum.splits)


lemma set_prop_trace:
  "set_prop options name x w = Inr w1 \<Longrightarrow>
   trace w1 = trace w @ [PropertySet options name x] \<and>
   events_of w1 = events_of w \<and> handles w1 = handles w"
  by (cases options) auto




lemma Api_setup_replaced:
  "Api_setup E this options w =
     (case resetPlayer E this (h_controller (handles w this))
             (qoe_tick this ''setup'' (qoe_clear this ''ready'' w)) of
        (Inl e, w3) \<Rightarrow> (Inl e, w3)
      | (Inr u, w3) \<Rightarrow> bind_events E this options (replaced E this w))"
  by (simp add: Api_setup_eq replaced_def Let_def split: prod.splits sum.splits)


lemma foreach_events_requested:
  "foreach_events E this kvs w = (Inr u, w') \<Longrightarrow>
   \<exists>calls. trace w' = trace w @ calls \<and> map call_of calls = requested E this kvs w"
proof (induction kvs arbitrary: w)
  case Nil
  then show ?case by simp
next
  case (Cons p kvs)
  obtain evt val where p: "p = (evt, val)" by (cases p)
  show ?case
  proof (cases "is_function (Api_get w this evt)")
    case False
    then have f: "foreach_events E this (p # kvs) w = foreach_events E this kvs w"
      using p by (cases "Api_get w this evt") simp_all
    have b: "requested E this (p # kvs) w = requested E this kvs w"
      using False p by simp
    show ?thesis using Cons.IH [of w] Cons.prems f b by simp
  next
    case True
    then obtain g where g: "Api_get w this evt = Fun g" by (cases "Api_get w this evt") simp_all
    obtain r1 w1 where i: "invoke E (Fun g) (Obj this) [val] w = (r1, w1)"
      by (cases "invoke E (Fun g) (Obj this) [val] w")
    obtain sub where t1: "trace w1 = trace w @ [Called (Fun g) (Obj this) [val] sub]"
      using invoke_trace [of E "Fun g" "Obj this" "[val]" w] i by auto
    let ?c = "Called (Fun g) (Obj this) [val] sub"
    have b: "requested E this (p # kvs) w = Some (Fun g, Obj this, [val]) # requested E this kvs w1"
      using p g i by simp
    obtain v where r1: "r1 = Inr v" using Cons.prems p g i by (cases r1) simp_all
    have "foreach_events E this kvs w1 = (Inr u, w')" using Cons.prems p g i r1 by simp
    from Cons.IH [OF this]
    obtain calls where c: "trace w' = trace w1 @ calls"
      "map call_of calls = requested E this kvs w1"
      by blast
    show ?thesis
      by (intro exI [of _ "?c # calls"]) (use c t1 b in simp)
  qed
qed

lemma set_prop_stores:
  "set_prop (Obj a) name x w = Inr w1 \<Longrightarrow> a < length (heap w) \<Longrightarrow>
   lookup (obj_props w1 a) name = x"
  by (auto simp: obj_props_def lookup_def update_conv')

text \<open>C8. When \<^verbatim>\<open>setup\<close> returns, then from the moment the replacement controller was
  wired and stored it did exactly this, in order. It read \<^verbatim>\<open>options.events\<close>. It made
  the calls that map asks for: going through the keys in order, for each key under which
  the handle has a function at that moment, that function on the handle with the key's
  value as only argument. It wrote the handle's \<^verbatim>\<open>id\<close> into the options (where an
  options object then has it). It called the \<^verbatim>\<open>setup\<close> of the controller the handle
  holds at that moment with the options and the handle, and returned the handle. In the
  scenario \<^verbatim>\<open>setup({events: {setVolume: 50}})\<close> the controller's \<^verbatim>\<open>setVolume\<close>, which
  the fresh controller has there, is called with 50 before \<^verbatim>\<open>setup\<close> returns.\<close>

theorem setup_applies_event_bindings:
  assumes A: "Api_setup E this options w = (Inr r, w')"
  shows "\<exists>events. get_prop (replaced E this w) options ''events'' = Inr events \<and>
     (let w5 = replaced E this w;
          kvs = entries w5 events;
          w6 = snd (foreach_events E this kvs w5);
          id = Api_get w6 this ''id''
      in (\<exists>calls. trace w6 = trace w5 @ calls \<and> map call_of calls = requested E this kvs w5) \<and>
         (\<exists>w7. set_prop options ''id'' id w6 = Inr w7 \<and>
            trace w7 = trace w6 @ [PropertySet options ''id'' id] \<and>
            (\<forall>a. options = Obj a \<and> a < length (heap w6) \<longrightarrow> lookup (obj_props w7 a) ''id'' = id) \<and>
            (let c = h_controller (handles w7 this);
                 f = lookup (obj_props w7 c) ''setup''
             in w' = snd (invoke E f (Obj c) [options, Obj this] w7) \<and>
                (\<exists>sub. trace w' = trace w7 @ [Called f (Obj c) [options, Obj this] sub]))) \<and>
         r = Obj this)"
proof -
  let ?w5 = "replaced E this w"
  have B: "bind_events E this options ?w5 = (Inr r, w')"
    using A unfolding Api_setup_replaced by (auto split: prod.splits sum.splits)
  obtain events where ev: "get_prop ?w5 options ''events'' = Inr events"
    using B by (cases "get_prop ?w5 options ''events''") (simp_all add: bind_events_def)
  let ?kvs = "entries ?w5 events"
  obtain r6 w6 where f: "foreach_events E this ?kvs ?w5 = (r6, w6)"
    by (cases "foreach_events E this ?kvs ?w5")
  have w6: "snd (foreach_events E this ?kvs ?w5) = w6" using f by simp
  obtain u where r6: "r6 = Inr u"
    using B ev f by (cases r6) (simp_all add: bind_events_def)
  have c: "\<exists>calls. trace w6 = trace ?w5 @ calls \<and> map call_of calls = requested E this ?kvs ?w5"
    using foreach_events_requested [of E this ?kvs ?w5 u w6] f r6 by blast
  let ?id = "Api_get w6 this ''id''"
  obtain w7 where sp: "set_prop options ''id'' ?id w6 = Inr w7"
    using B ev f r6 by (cases "set_prop options ''id'' ?id w6") (simp_all add: bind_events_def)
  have t7: "trace w7 = trace w6 @ [PropertySet options ''id'' ?id]"
    using set_prop_trace [OF sp] by simp
  have st: "\<forall>a. options = Obj a \<and> a < length (heap w6) \<longrightarrow> lookup (obj_props w7 a) ''id'' = ?id"
    using set_prop_stores sp by blast
  let ?c = "h_controller (handles w7 this)"
  let ?f = "lookup (obj_props w7 ?c) ''setup''"
  obtain r8 w8 where i: "invoke E ?f (Obj ?c) [options, Obj this] w7 = (r8, w8)"
    by (cases "invoke E ?f (Obj ?c) [options, Obj this] w7")
  obtain sub where t8: "trace w8 = trace w7 @ [Called ?f (Obj ?c) [options, Obj this] sub]"
    using invoke_trace [of E ?f "Obj ?c" "[options, Obj this]" w7] i by auto
  have e: "w' = w8 \<and> r = Obj this"
    using B ev f r6 sp i by (cases r8) (simp_all add: bind_events_def Let_def)
  have d: "w' = snd (invoke E ?f (Obj ?c) [options, Obj this] w7) \<and>
      (\<exists>sub. trace w' = trace w7 @ [Called ?f (Obj ?c) [options, Obj this] sub])"
    using e i t8 by simp
  have s7: "\<exists>w7. set_prop options ''id'' ?id w6 = Inr w7 \<and>
            trace w7 = trace w6 @ [PropertySet options ''id'' ?id] \<and>
            (\<forall>a. options = Obj a \<and> a < length (heap w6) \<longrightarrow> lookup (obj_props w7 a) ''id'' = ?id) \<and>
            (w' = snd (invoke E (lookup (obj_props w7 (h_controller (handles w7 this))) ''setup'')
                    (Obj (h_controller (handles w7 this))) [options, Obj this] w7) \<and>
                (\<exists>sub. trace w' = trace w7 @ [Called (lookup (obj_props w7 (h_controller (handles w7 this))) ''setup'')
                    (Obj (h_controller (handles w7 this))) [options, Obj this] sub]))"
    by (intro exI [of _ w7] conjI sp t7 st conjunct1 [OF d] conjunct2 [OF d])
  have r: "r = Obj this" using e by simp
  show ?thesis
    by (rule exI [of _ events], unfold Let_def w6, intro conjI ev c s7 r)
qed

lemma invoke_subscriptions:
  "keeps_subscriptions E this \<Longrightarrow> events_of (snd (invoke E f rcv args w)) this = events_of w this"
proof (cases f)
  case (Fun g)
  assume k: "keeps_subscriptions E this"
  obtain r w1 where c: "call E g rcv args (w\<lparr>trace := []\<rparr>) = (r, w1)"
    by (cases "call E g rcv args (w\<lparr>trace := []\<rparr>)")
  have "events_of w1 this = events_of (w\<lparr>trace := []\<rparr>) this"
    using k c unfolding keeps_subscriptions_def by (metis snd_conv)
  then show ?thesis using Fun c by (simp add: invoke_def)
qed (simp_all add: invoke_def)

lemma deliver_keeps_persistent:
  assumes k: "keeps_subscriptions E this" and x: "x \<in> set (events_of w this)" and p: "\<not> s_once x"
  shows "x \<in> set (events_of (snd (deliver E this s args w)) this)"
proof -
  obtain r w1 where i: "invoke E (s_callback s) (receiver this s) args w = (r, w1)"
    by (cases "invoke E (s_callback s) (receiver this s) args w")
  have e: "events_of w1 this = events_of w this"
    using invoke_subscriptions [OF k, of "s_callback s" "receiver this s" args w] i by simp
  show ?thesis
  proof (cases "s_once s")
    case True
    then have "x \<noteq> s" using p by auto
    then have "x \<in> set (remove1 s (events_of w1 this))" using x e by simp
    then show ?thesis using i True by (simp add: deliver_def)
  next
    case False
    then show ?thesis using i x e by (simp add: deliver_def)
  qed
qed

lemma safe_trigger_events_keeps_persistent:
  "keeps_subscriptions E this \<Longrightarrow> x \<in> set (events_of w this) \<Longrightarrow> \<not> s_once x \<Longrightarrow>
   x \<in> set (events_of (safe_trigger_events E this rs w) this)"
proof (induction rs arbitrary: w)
  case Nil
  then show ?case by simp
next
  case (Cons q rs)
  obtain s args where q: "q = (s, args)" by (cases q)
  have "x \<in> set (events_of (snd (deliver E this s args w)) this)"
    using deliver_keeps_persistent [OF Cons.prems] by simp
  then show ?case using Cons.IH [OF Cons.prems(1) _ Cons.prems(3)] q by simp
qed

lemma trigger_events_keeps_persistent:
  "keeps_subscriptions E this \<Longrightarrow> x \<in> set (events_of w this) \<Longrightarrow> \<not> s_once x \<Longrightarrow>
   x \<in> set (events_of (snd (trigger_events E this rs w)) this)"
proof (induction rs arbitrary: w)
  case Nil
  then show ?case by simp
next
  case (Cons q rs)
  obtain s args where q: "q = (s, args)" by (cases q)
  obtain r w1 where d: "deliver E this s args w = (r, w1)" by (cases "deliver E this s args w")
  have x1: "x \<in> set (events_of w1 this)"
    using deliver_keeps_persistent [OF Cons.prems, of s args] d by simp
  show ?case using Cons.IH [OF Cons.prems(1) x1 Cons.prems(3)] q d x1 by (cases r) simp_all
qed

lemma Api_trigger_keeps_persistent:
  assumes k: "keeps_subscriptions E this" and x: "x \<in> set (events_of w this)" and p: "\<not> s_once x"
  shows "x \<in> set (events_of (snd (Api_trigger E this name args w)) this)"
proof -
  let ?a = "length (heap w)"
  let ?w1 = "w\<lparr>heap := heap w @ [AList.update ''type'' (Str name) (entries w args)]\<rparr>"
  let ?rs = "recipients (events_of ?w1 this) name (Obj ?a)"
  have x1: "x \<in> set (events_of ?w1 this)" using x by simp
  have a: "x \<in> set (events_of (snd (trigger_events E this ?rs ?w1)) this)"
    by (rule trigger_events_keeps_persistent [OF k x1 p])
  have b: "x \<in> set (events_of (safe_trigger_events E this ?rs ?w1) this)"
    by (rule safe_trigger_events_keeps_persistent [OF k x1 p])
  have "snd (Api_trigger E this name args w) = snd (trigger_events E this ?rs ?w1) \<or>
        snd (Api_trigger E this name args w) = safe_trigger_events E this ?rs ?w1"
    by (auto simp: Api_trigger_def trigger_args_eq Let_def Events_trigger_def Events_triggerSafe_def
        split: prod.splits sum.splits)
  then show ?thesis using a b by auto
qed

lemma recipients_append_hook:
  "name \<noteq> ''all'' \<Longrightarrow>
   recipients (subs @ [hook name cb]) name payload =
     map (\<lambda>s. (s, [payload])) (filter (\<lambda>s. s_name s = name) subs) @ [(hook name cb, [payload])] @
     map (\<lambda>s. (s, [Str name, payload])) (filter (\<lambda>s. s_name s = ''all'') subs)"
  by (simp add: recipients_def hook_def)

lemma addPlugin_eq:
  "addPlugin this name (Obj p) w =
     (let w1 = w\<lparr>heap := (heap w)[h_plugins (handles w this) :=
                  AList.update name (Obj p) (obj_props w (h_plugins (handles w this)))],
                trace := trace w @ [PropertySet (Obj (h_plugins (handles w this))) name (Obj p)]\<rparr>;
          addToPlayer = lookup (obj_props w1 p) ''addToPlayer'';
          w2 = Events_on this ''ready'' addToPlayer Undefined w1
      in if truthy (lookup (obj_props w1 p) ''resize'')
         then (Inr Undefined, Events_on this ''resize'' (lookup (obj_props w1 p) ''resizeHandler'') Undefined w2)
         else (Inr Undefined, w2))"
  by (simp add: addPlugin_def Api_on_def Let_def Events_on_def obj_props_def)

lemma Api_trigger_delivers_all:
  assumes A: "Api_trigger E this name args w = (Inr r, w')"
  shows "\<exists>tr. trace w' = trace w @ tr \<and>
     map call_of tr = deliveries this (recipients (events_of w this) name (Obj (length (heap w))))"
proof -
  let ?ds = "deliveries this (recipients (events_of w this) name (Obj (length (heap w))))"
  obtain tr where t: "trace w' = trace w @ tr" "map call_of tr = take (length tr) ?ds"
    "length tr = length (recipients (events_of w this) name (Obj (length (heap w))))"
    using Api_trigger_trace [OF A] by blast
  have "length tr = length ?ds" using t(3) by (simp add: deliveries_def)
  then have "map call_of tr = ?ds" using t(2) by simp
  then show ?thesis using t(1) by blast
qed

lemma subscriber_among_deliveries:
  "x \<in> set subs \<Longrightarrow> s_name x = name \<Longrightarrow>
   Some (s_callback x, receiver this x, [payload]) \<in> set (deliveries this (recipients subs name payload))"
  by (force simp: deliveries_def recipients_def)

subsection \<open>Plugins\<close>

text \<open>C9. \<^verbatim>\<open>addPlugin(name, instance)\<close> returns after storing the instance in the
  handle's plugins mapping, where \<^verbatim>\<open>getPlugin\<close> finds it, and appending to the handle's
  subscriptions one to \<^verbatim>\<open>ready\<close> with the instance's \<^verbatim>\<open>addToPlayer\<close>, not once, and,
  exactly when the instance's \<^verbatim>\<open>resize\<close> is truthy, one to \<^verbatim>\<open>resize\<close> with its
  \<^verbatim>\<open>resizeHandler\<close>. A \<^verbatim>\<open>ready\<close> event now reaches the subscribers it reached before
  and, once more, \<^verbatim>\<open>addToPlayer\<close>; a \<^verbatim>\<open>trigger\<close> of \<^verbatim>\<open>ready\<close> that returns calls
  exactly these; and the subscription survives the trigger, so that the next one calls
  \<^verbatim>\<open>addToPlayer\<close> again (outside functions not unsubscribing it).\<close>

theorem addPlugin_registers_hooks:
  assumes m: "h_plugins (handles w this) < length (heap w)"
    and A: "addPlugin this name (Obj p) w = (r, w')"
  shows "r = Inr Undefined \<and>
     getPlugin this name w' = Obj p \<and>
     events_of w' this =
       events_of w this @ [hook ''ready'' (lookup (obj_props w' p) ''addToPlayer'')] @
       (if truthy (lookup (obj_props w' p) ''resize'')
        then [hook ''resize'' (lookup (obj_props w' p) ''resizeHandler'')] else []) \<and>
     recipients (events_of w' this) ''ready'' payload =
       map (\<lambda>s. (s, [payload])) (filter (\<lambda>s. s_name s = ''ready'') (events_of w this)) @
       [(hook ''ready'' (lookup (obj_props w' p) ''addToPlayer''), [payload])] @
       map (\<lambda>s. (s, [Str ''ready'', payload])) (filter (\<lambda>s. s_name s = ''all'') (events_of w this)) \<and>
     (\<forall>r1 w1. Api_trigger E this ''ready'' args w' = (Inr r1, w1) \<longrightarrow>
        (\<exists>tr. trace w1 = trace w' @ tr \<and>
           map call_of tr =
             deliveries this (recipients (events_of w' this) ''ready'' (Obj (length (heap w')))))) \<and>
     (keeps_subscriptions E this \<longrightarrow>
        (\<forall>r1 w1 args2 r2 w2.
           Api_trigger E this ''ready'' args w' = (r1, w1) \<and>
           Api_trigger E this ''ready'' args2 w1 = (Inr r2, w2) \<longrightarrow>
           (\<exists>tr. trace w2 = trace w1 @ tr \<and>
              Some (lookup (obj_props w' p) ''addToPlayer'', Obj this, [Obj (length (heap w1))])
                \<in> set (map call_of tr))))"
proof -
  let ?pl = "h_plugins (handles w this)"
  let ?w1 = "w\<lparr>heap := (heap w)[?pl := AList.update name (Obj p) (obj_props w ?pl)],
                trace := trace w @ [PropertySet (Obj ?pl) name (Obj p)]\<rparr>"
  let ?cb = "lookup (obj_props ?w1 p) ''addToPlayer''"
  let ?w2 = "Events_on this ''ready'' ?cb Undefined ?w1"
  let ?rh = "lookup (obj_props ?w1 p) ''resizeHandler''"
  have r: "r = Inr Undefined" using A by (auto simp: addPlugin_eq Let_def split: if_splits)
  have hp: "heap w' = heap ?w1" "handles w' = handles w"
    using A by (auto simp: addPlugin_eq Let_def Events_on_def split: if_splits)
  have op: "obj_props w' = obj_props ?w1"
    using hp(1) by (simp add: obj_props_def fun_eq_iff)
  have g: "getPlugin this name w' = Obj p"
    using m by (simp add: getPlugin_def hp(2) op obj_props_def lookup_def update_conv')
  have e: "events_of w' this = events_of w this @ [hook ''ready'' ?cb] @
       (if truthy (lookup (obj_props ?w1 p) ''resize'') then [hook ''resize'' ?rh] else [])"
    using A by (auto simp: addPlugin_eq Let_def Events_on_def hook_def split: if_splits)
  have rc: "recipients (events_of w' this) ''ready'' payload =
       map (\<lambda>s. (s, [payload])) (filter (\<lambda>s. s_name s = ''ready'') (events_of w this)) @
       [(hook ''ready'' ?cb, [payload])] @
       map (\<lambda>s. (s, [Str ''ready'', payload])) (filter (\<lambda>s. s_name s = ''all'') (events_of w this))"
    unfolding e by (simp add: recipients_def hook_def)
  have mem: "hook ''ready'' ?cb \<in> set (events_of w' this)" "\<not> s_once (hook ''ready'' ?cb)"
    unfolding e by (simp_all add: hook_def)
  have first: "\<forall>r1 w1. Api_trigger E this ''ready'' args w' = (Inr r1, w1) \<longrightarrow>
        (\<exists>tr. trace w1 = trace w' @ tr \<and>
           map call_of tr =
             deliveries this (recipients (events_of w' this) ''ready'' (Obj (length (heap w')))))"
    using Api_trigger_delivers_all by blast
  have again: "keeps_subscriptions E this \<longrightarrow>
        (\<forall>r1 w1 args2 r2 w2.
           Api_trigger E this ''ready'' args w' = (r1, w1) \<and>
           Api_trigger E this ''ready'' args2 w1 = (Inr r2, w2) \<longrightarrow>
           (\<exists>tr. trace w2 = trace w1 @ tr \<and>
              Some (?cb, Obj this, [Obj (length (heap w1))]) \<in> set (map call_of tr)))"
  proof (intro impI allI)
    fix r1 w1 args2 r2 w2
    assume k: "keeps_subscriptions E this"
      and T: "Api_trigger E this ''ready'' args w' = (r1, w1) \<and>
           Api_trigger E this ''ready'' args2 w1 = (Inr r2, w2)"
    have "hook ''ready'' ?cb \<in> set (events_of (snd (Api_trigger E this ''ready'' args w')) this)"
      by (rule Api_trigger_keeps_persistent [OF k mem])
    then have x: "hook ''ready'' ?cb \<in> set (events_of w1 this)" using T by simp
    obtain tr where tr: "trace w2 = trace w1 @ tr"
      "map call_of tr = deliveries this (recipients (events_of w1 this) ''ready'' (Obj (length (heap w1))))"
      using Api_trigger_delivers_all T by blast
    have "Some (s_callback (hook ''ready'' ?cb), receiver this (hook ''ready'' ?cb), [Obj (length (heap w1))])
        \<in> set (deliveries this (recipients (events_of w1 this) ''ready'' (Obj (length (heap w1)))))"
      by (rule subscriber_among_deliveries [OF x]) (simp add: hook_def)
    then have "Some (?cb, Obj this, [Obj (length (heap w1))]) \<in> set (map call_of tr)"
      using tr(2) by (simp add: hook_def receiver_def absent_def)
    then show "\<exists>tr. trace w2 = trace w1 @ tr \<and>
              Some (?cb, Obj this, [Obj (length (heap w1))]) \<in> set (map call_of tr)"
      using tr(1) by blast
  qed
  show ?thesis using r g e rc first again unfolding op by blast
qed

subsection \<open>Worked scenarios\<close>

lemma leaving_eq:
  "leaving = listening\<lparr>events_of := (events_of listening)(2 := events_of listening 2 @
        [\<lparr>s_name = ''remove'', s_callback = Fun (Ext 7), s_context = Undefined, s_once = False\<rparr>]),
      trace := trace listening @ [Subscribed 2 ''remove'' (Fun (Ext 7))]\<rparr>"
  by (simp add: leaving_def Api_on_def Events_on_def)

lemma remove_leaving:
  "fst (remove plain 2 leaving) = Inr (Obj 2) \<and>
   trace (snd (remove plain 2 leaving)) = trace leaving @
     [Unregistered 2, Called (Fun (Ext 7)) (Obj 2) [Obj 5] [],
      Called (Fun (Ext 6)) (Obj 2) [Str ''remove'', Obj 5] [],
      Unsubscribed 2 Undefined Undefined Undefined,
      Unsubscribed 4 Undefined Undefined Undefined,
      Called (Fun (Ext 2)) (Obj 4) [] []]"
  by (simp add: remove_def removePlayer_def Api_trigger_def trigger_args_eq Events_triggerSafe_def
      recipients_def deliver_def invoke_def receiver_def absent_def dispatch_defs resetPlayer_def
      Events_off_def obj_props_def lookup_def Let_def leaving_eq listening_eq player_eq
      eval_nat_numeral)

lemma invoke_plain:
  "g \<noteq> Ext 0 \<Longrightarrow> g \<noteq> Ext 4 \<Longrightarrow>
   invoke plain (Fun g) rcv args w = (Inr Undefined, w\<lparr>trace := trace w @ [Called (Fun g) rcv args []]\<rparr>)"
  by (simp add: invoke_def plain_def)

lemma leaving_facts:
  "valid_ref leaving (window_jwplayer leaving)" "\<not> debug_flag leaving"
  "length (heap leaving) = 5"
  "events_of leaving 2 = [
        \<lparr>s_name = ''x'', s_callback = Fun (Ext 0), s_context = Undefined, s_once = False\<rparr>,
        \<lparr>s_name = ''x'', s_callback = Fun (Ext 5), s_context = Undefined, s_once = False\<rparr>,
        \<lparr>s_name = ''all'', s_callback = Fun (Ext 6), s_context = Undefined, s_once = False\<rparr>,
        \<lparr>s_name = ''remove'', s_callback = Fun (Ext 7), s_context = Undefined, s_once = False\<rparr>]"
  by (simp_all add: leaving_eq listening_eq player_eq debug_flag_def)

lemma trigger_leaving:
  "h_controller (handles (snd (Api_trigger plain 2 ''remove'' Undefined (removePlayer 2 leaving))) 2) = 4 \<and>
   lookup (obj_props (snd (Api_trigger plain 2 ''remove'' Undefined (removePlayer 2 leaving))) 4) ''playerDestroy'' = Fun (Ext 2)"
  by (simp add: removePlayer_def Api_trigger_def trigger_args_eq Events_triggerSafe_def
      recipients_def deliver_def invoke_def receiver_def absent_def dispatch_defs
      obj_props_def lookup_def Let_def leaving_eq listening_eq player_eq eval_nat_numeral)

theorem remove_event_before_teardown_example:
  "valid_ref leaving (window_jwplayer leaving) \<and> \<not> debug_flag leaving \<and>
   fst (remove plain 2 leaving) = Inr (Obj 2) \<and>
   map call_of (drop (length (trace leaving)) (trace (snd (remove plain 2 leaving)))) =
     [None, Some (Fun (Ext 7), Obj 2, [Obj 5]), Some (Fun (Ext 6), Obj 2, [Str ''remove'', Obj 5]),
      None, None, Some (Fun (Ext 2), Obj 4, [])] \<and>
   trace (snd (remove plain 2 leaving)) = trace leaving @
     [Unregistered 2, Called (Fun (Ext 7)) (Obj 2) [Obj 5] [],
      Called (Fun (Ext 6)) (Obj 2) [Str ''remove'', Obj 5] [],
      Unsubscribed 2 Undefined Undefined Undefined,
      Unsubscribed 4 Undefined Undefined Undefined,
      Called (Fun (Ext 2)) (Obj 4) [] []]"
proof -
  have e: "remove plain 2 leaving = (fst (remove plain 2 leaving), snd (remove plain 2 leaving))"
    by simp
  let ?T = "Api_trigger plain 2 ''remove'' Undefined (removePlayer 2 leaving)"
  have ds: "deliveries 2 (recipients (events_of leaving 2) ''remove'' (Obj (length (heap leaving)))) =
     [Some (Fun (Ext 7), Obj 2, [Obj 5]), Some (Fun (Ext 6), Obj 2, [Str ''remove'', Obj 5])]"
    by (simp add: leaving_facts deliveries_def recipients_def receiver_def absent_def)
  note R = remove_event_before_teardown [OF e, unfolded Let_def ds]
  have f: "fst ?T = Inr (Obj 2)" using R leaving_facts(1,2) by blast
  obtain delivered where d: "trace (snd ?T) = trace (removePlayer 2 leaving) @ delivered"
    "map call_of delivered = [Some (Fun (Ext 7), Obj 2, [Obj 5]), Some (Fun (Ext 6), Obj 2, [Str ''remove'', Obj 5])]"
    using R f by auto
  let ?wd = "detached 2 4 (snd ?T)"
  have i: "invoke plain (Fun (Ext 2)) (Obj 4) [] ?wd =
      (Inr Undefined, ?wd\<lparr>trace := trace ?wd @ [Called (Fun (Ext 2)) (Obj 4) [] []]\<rparr>)"
    by (rule invoke_plain) simp_all
  have t: "trace (removePlayer 2 leaving) = trace leaving @ [Unregistered 2]"
    "trace ?wd = trace (snd ?T) @ [Unsubscribed 2 Undefined Undefined Undefined,
        Unsubscribed 4 Undefined Undefined Undefined]"
    "snd (remove plain 2 leaving) = snd (invoke plain (Fun (Ext 2)) (Obj 4) [] ?wd)"
    "fst (remove plain 2 leaving) = Inr (Obj 2)"
    using R f trigger_leaving i by simp_all
  have m: "map call_of (drop (length (trace leaving)) (trace (snd (remove plain 2 leaving)))) =
     [None, Some (Fun (Ext 7), Obj 2, [Obj 5]), Some (Fun (Ext 6), Obj 2, [Str ''remove'', Obj 5]),
      None, None, Some (Fun (Ext 2), Obj 4, [])]"
    unfolding t(3) i using t(1,2) d by simp
  show ?thesis
    by (intro conjI leaving_facts(1,2) t(4) m conjunct2 [OF remove_leaving])
qed

lemma configuring_eq:
  "configuring = player\<lparr>heap := heap player @
      [[(''setVolume'', Num 50), (''volume'', Num 5)], [(''events'', Obj 5), (''file'', Str ''a.mp4'')]]\<rparr>"
  by (simp add: configuring_def alloc_def player_eq)


lemma wired_trace [simp]: "wired (w\<lparr>trace := t\<rparr>) this = wired w this"
  by (simp add: wired_def forwards_to_def)








lemma scripted_defs:
  "call scripted (ApiMethod ''setVolume'') (Obj this) [level] w = setVolume plain this level w"
  "call scripted (Ext n) rcv args w = call plain (Ext n) rcv args w"
  "controller_props scripted = controller_props plain"
  by (simp_all add: scripted_def)

lemma setup_scripted:
  "fst (Api_setup scripted 2 (Obj 6) configuring) = Inr (Obj 2) \<and>
   trace (snd (Api_setup scripted 2 (Obj 6) configuring)) = trace configuring @
     [QoeClear 2 ''ready'', QoeTick 2 ''setup'', Unsubscribed 2 Undefined Undefined Undefined,
      Unsubscribed 4 Undefined Undefined Undefined, Called (Fun (Ext 2)) (Obj 4) [] [],
      NewController 2 7, Subscribed 7 ''ready'' (Fun (ReadyHook 2)),
      Subscribed 7 ''all'' (Fun (AllHook 2)),
      Called (Fun (ApiMethod ''setVolume'')) (Obj 2) [Num 50]
        [Called (Fun (Ext 3)) (Obj 7) [Num 50] []],
      PropertySet (Obj 6) ''id'' (Str ''a''), Called (Fun (Ext 1)) (Obj 7) [Obj 6, Obj 2] []]"
  by (simp add: Api_setup_def qoe_tick_def qoe_clear_def resetPlayer_def Events_off_def
      setupController_eq invoke_def scripted_defs dispatch_defs setVolume_def callInternal_def apply_method_def
      obj_props_def lookup_def Let_def Api_get_def
      Api_functions_def configuring_eq player_eq plain_def eval_nat_numeral)

lemma replaced_configuring:
  "get_prop (replaced scripted 2 configuring) (Obj 6) ''events'' = Inr (Obj 5) \<and>
   entries (replaced scripted 2 configuring) (Obj 5) = [(''setVolume'', Num 50), (''volume'', Num 5)] \<and>
   requested scripted 2 [(''setVolume'', Num 50), (''volume'', Num 5)] (replaced scripted 2 configuring) =
     [Some (Fun (ApiMethod ''setVolume''), Obj 2, [Num 50])]"
  by (simp add: replaced_def qoe_tick_def qoe_clear_def resetPlayer_def Events_off_def
      setupController_eq invoke_def scripted_defs dispatch_defs setVolume_def callInternal_def
      apply_method_def obj_props_def lookup_def Let_def Api_get_def
      Api_functions_def configuring_eq player_eq plain_def eval_nat_numeral)

lemma setup_scripted_id:
  "lookup (obj_props (snd (Api_setup scripted 2 (Obj 6) configuring)) 6) ''id'' = Str ''a''"
  by (simp add: Api_setup_def qoe_tick_def qoe_clear_def resetPlayer_def Events_off_def
      setupController_eq invoke_def scripted_defs dispatch_defs setVolume_def callInternal_def
      apply_method_def obj_props_def lookup_def Let_def Api_get_def
      Api_functions_def configuring_eq player_eq plain_def eval_nat_numeral)

theorem setup_applies_event_bindings_example:
  "fst (Api_setup scripted 2 (Obj 6) configuring) = Inr (Obj 2) \<and>
   get_prop (replaced scripted 2 configuring) (Obj 6) ''events'' = Inr (Obj 5) \<and>
   entries (replaced scripted 2 configuring) (Obj 5) = [(''setVolume'', Num 50), (''volume'', Num 5)] \<and>
   map call_of (drop (length (trace (replaced scripted 2 configuring)))
     (trace (snd (foreach_events scripted 2 [(''setVolume'', Num 50), (''volume'', Num 5)]
                    (replaced scripted 2 configuring))))) =
     [Some (Fun (ApiMethod ''setVolume''), Obj 2, [Num 50])] \<and>
   trace (snd (Api_setup scripted 2 (Obj 6) configuring)) = trace configuring @
     [QoeClear 2 ''ready'', QoeTick 2 ''setup'', Unsubscribed 2 Undefined Undefined Undefined,
      Unsubscribed 4 Undefined Undefined Undefined, Called (Fun (Ext 2)) (Obj 4) [] [],
      NewController 2 7, Subscribed 7 ''ready'' (Fun (ReadyHook 2)),
      Subscribed 7 ''all'' (Fun (AllHook 2)),
      Called (Fun (ApiMethod ''setVolume'')) (Obj 2) [Num 50]
        [Called (Fun (Ext 3)) (Obj 7) [Num 50] []],
      PropertySet (Obj 6) ''id'' (Str ''a''), Called (Fun (Ext 1)) (Obj 7) [Obj 6, Obj 2] []] \<and>
   lookup (obj_props (snd (Api_setup scripted 2 (Obj 6) configuring)) 6) ''id'' = Str ''a''"
proof -
  have e: "Api_setup scripted 2 (Obj 6) configuring =
      (Inr (Obj 2), snd (Api_setup scripted 2 (Obj 6) configuring))"
    using setup_scripted by (simp add: prod_eq_iff)
  let ?w5 = "replaced scripted 2 configuring"
  let ?kvs = "[(''setVolume'', Num 50), (''volume'', Num 5)]"
  note g = conjunct1 [OF replaced_configuring]
    and en = conjunct1 [OF conjunct2 [OF replaced_configuring]]
    and rq = conjunct2 [OF conjunct2 [OF replaced_configuring]]
  from setup_applies_event_bindings [OF e]
  obtain events where ev: "get_prop ?w5 (Obj 6) ''events'' = Inr events"
    and b: "\<exists>calls. trace (snd (foreach_events scripted 2 (entries ?w5 events) ?w5)) = trace ?w5 @ calls \<and>
        map call_of calls = requested scripted 2 (entries ?w5 events) ?w5"
    unfolding Let_def by blast
  have "events = Obj 5" using ev g by simp
  then obtain calls where c: "trace (snd (foreach_events scripted 2 ?kvs ?w5)) = trace ?w5 @ calls"
    "map call_of calls = [Some (Fun (ApiMethod ''setVolume''), Obj 2, [Num 50])]"
    using b en rq by auto
  have m: "map call_of (drop (length (trace ?w5)) (trace (snd (foreach_events scripted 2 ?kvs ?w5)))) =
     [Some (Fun (ApiMethod ''setVolume''), Obj 2, [Num 50])]"
    using c by simp
  show ?thesis
    by (intro conjI conjunct1 [OF setup_scripted] g en m conjunct2 [OF setup_scripted] setup_scripted_id)
qed

lemma callInternal_own_apply:
  "lookup (obj_props applying (h_controller (handles applying 2))) ''odd'' = Obj 5 \<and>
   lookup (obj_props applying 5) ''apply'' = Fun (Ext 4) \<and>
   fst (callInternal plain 2 ''odd'' [Num 1, Num 2] applying) = Inr (JBool True) \<and>
   trace (snd (callInternal plain 2 ''odd'' [Num 1, Num 2] applying)) =
     trace applying @ [Called (Fun (Ext 4)) (Obj 5) [Obj 4, Obj 6] []] \<and>
   obj_props (snd (callInternal plain 2 ''odd'' [Num 1, Num 2] applying)) 6 =
     [(''0'', Num 1), (''1'', Num 2), (''length'', Num 2)]"
  by (simp add: applying_def callInternal_def apply_method_def array_props_def alloc_def invoke_def
      dispatch_defs obj_props_def lookup_def Let_def player_eq eval_nat_numeral upt_rec)

lemma plugged_eq:
  "plugged = player\<lparr>heap := heap player @
      [[(''addToPlayer'', Fun (Ext 8)), (''resize'', JBool True), (''resizeHandler'', Fun (Ext 9))]]\<rparr>"
  by (simp add: plugged_def alloc_def)

lemma keeps_subscriptions_plain: "keeps_subscriptions plain this"
  by (simp add: keeps_subscriptions_def plain_def)

lemma addPlugin_plugged:
  "addPlugin 2 ''foo'' (Obj 5) plugged =
     (Inr Undefined,
      plugged\<lparr>heap := (heap plugged)[3 := [(''foo'', Obj 5)]],
              events_of := (events_of plugged)(2 := [hook ''ready'' (Fun (Ext 8)), hook ''resize'' (Fun (Ext 9))]),
              trace := trace plugged @ [PropertySet (Obj 3) ''foo'' (Obj 5), Subscribed 2 ''ready'' (Fun (Ext 8)),
                Subscribed 2 ''resize'' (Fun (Ext 9))]\<rparr>)"
  by (simp add: addPlugin_eq Let_def Events_on_def hook_def obj_props_def lookup_def plugged_eq player_eq)

theorem addPlugin_registers_hooks_example:
  "h_plugins (handles plugged 2) < length (heap plugged) \<and> keeps_subscriptions plain 2 \<and>
   fst (addPlugin 2 ''foo'' (Obj 5) plugged) = Inr Undefined \<and>
   getPlugin 2 ''foo'' (snd (addPlugin 2 ''foo'' (Obj 5) plugged)) = Obj 5 \<and>
   events_of (snd (addPlugin 2 ''foo'' (Obj 5) plugged)) 2 =
     [hook ''ready'' (Fun (Ext 8)), hook ''resize'' (Fun (Ext 9))] \<and>
   map call_of (drop (length (trace (snd (addPlugin 2 ''foo'' (Obj 5) plugged))))
     (trace (snd (Api_trigger plain 2 ''ready'' Undefined (snd (addPlugin 2 ''foo'' (Obj 5) plugged)))))) =
     [Some (Fun (Ext 8), Obj 2, [Obj 6])] \<and>
   map call_of (drop (length (trace (snd (Api_trigger plain 2 ''ready'' Undefined
        (snd (addPlugin 2 ''foo'' (Obj 5) plugged))))))
     (trace (snd (Api_trigger plain 2 ''ready'' Undefined (snd (Api_trigger plain 2 ''ready'' Undefined
        (snd (addPlugin 2 ''foo'' (Obj 5) plugged)))))))) =
     [Some (Fun (Ext 8), Obj 2, [Obj 7])]"
proof -
  let ?W = "snd (addPlugin 2 ''foo'' (Obj 5) plugged)"
  have m: "h_plugins (handles plugged 2) < length (heap plugged)"
    by (simp add: plugged_eq player_eq)
  have e: "addPlugin 2 ''foo'' (Obj 5) plugged = (Inr Undefined, ?W)"
    unfolding addPlugin_plugged by simp
  have l: "lookup (obj_props ?W 5) ''addToPlayer'' = Fun (Ext 8)"
    "lookup (obj_props ?W 5) ''resize'' = JBool True"
    "lookup (obj_props ?W 5) ''resizeHandler'' = Fun (Ext 9)"
    "events_of plugged 2 = []"
    unfolding addPlugin_plugged
    by (simp_all add: obj_props_def lookup_def plugged_eq player_eq)
  have t: "getPlugin 2 ''foo'' ?W = Obj 5 \<and>
      events_of ?W 2 = [hook ''ready'' (Fun (Ext 8)), hook ''resize'' (Fun (Ext 9))]"
    using addPlugin_registers_hooks [OF m e] l by simp
  have d1: "map call_of (drop (length (trace ?W)) (trace (snd (Api_trigger plain 2 ''ready'' Undefined ?W)))) =
     [Some (Fun (Ext 8), Obj 2, [Obj 6])]"
    unfolding addPlugin_plugged
    by (simp add: Api_trigger_def trigger_args_eq Events_triggerSafe_def
        recipients_def deliver_def invoke_def receiver_def absent_def dispatch_defs hook_def
        Let_def plugged_eq player_eq eval_nat_numeral)
  have d2: "map call_of (drop (length (trace (snd (Api_trigger plain 2 ''ready'' Undefined ?W))))
     (trace (snd (Api_trigger plain 2 ''ready'' Undefined (snd (Api_trigger plain 2 ''ready'' Undefined ?W)))))) =
     [Some (Fun (Ext 8), Obj 2, [Obj 7])]"
    unfolding addPlugin_plugged
    by (simp add: Api_trigger_def trigger_args_eq Events_triggerSafe_def
        recipients_def deliver_def invoke_def receiver_def absent_def dispatch_defs hook_def
        Let_def plugged_eq player_eq eval_nat_numeral)
  have f: "fst (addPlugin 2 ''foo'' (Obj 5) plugged) = Inr Undefined"
    unfolding addPlugin_plugged by simp
  show ?thesis
    by (intro conjI m keeps_subscriptions_plain f conjunct1 [OF t] conjunct2 [OF t] d1 d2)
qed

end
